theory Spec2Isabelle
  imports Main
begin

section \<open>Python strings\<close>

text \<open>
  A Python \<^verbatim>\<open>str\<close> is a sequence of Unicode code points. A character is modelled
  by its code point (a natural number) and a string by the list of its code points, so
  that the non-ASCII whitespace and digits that \<^verbatim>\<open>str.split\<close>, \<^verbatim>\<open>str.strip\<close>,
  \<^verbatim>\<open>str.isdigit\<close>, \<^verbatim>\<open>int\<close> and the \<^verbatim>\<open>re\<close> classes \<^verbatim>\<open>\s\<close> and \<^verbatim>\<open>\d\<close> recognise are
  part of the model. \<open>enc\<close> writes an ASCII literal as such a string.
\<close>

type_synonym pchar = nat
type_synonym pstr = "nat list"

definition enc :: "string \<Rightarrow> pstr" where
  "enc s = map of_char s"

text \<open>
  The character tables are those of the interpreter (CPython 3.11, Unicode 14.0), which
  are not part of the repository: the code points for which \<^verbatim>\<open>str.isspace\<close> holds
  (also the class \<^verbatim>\<open>\s\<close>, and what \<^verbatim>\<open>split()\<close> and \<^verbatim>\<open>strip()\<close> remove), the zero of
  every run of ten decimal digits (category Nd: \<^verbatim>\<open>str.isdecimal\<close>, the class \<^verbatim>\<open>\d\<close>, and
  the digits \<^verbatim>\<open>int\<close> reads), and the further code points for which \<^verbatim>\<open>str.isdigit\<close>
  holds although they are no decimal digits (superscripts, circled digits and the like).
\<close>

definition space_table :: "pchar list" where
  "space_table = [9, 10, 11, 12, 13, 28, 29, 30, 31, 32, 133, 160, 5760,
     8192, 8193, 8194, 8195, 8196, 8197, 8198, 8199, 8200, 8201, 8202,
     8232, 8233, 8239, 8287, 12288]"

definition is_space :: "pchar \<Rightarrow> bool" where
  "is_space c = (c \<in> set space_table)"

definition decimal_zeros :: "pchar list" where
  "decimal_zeros = [48, 1632, 1776, 1984, 2406, 2534, 2662, 2790, 2918, 3046, 3174,
     3302, 3430, 3558, 3664, 3792, 3872, 4160, 4240, 6112, 6160, 6470, 6608, 6784,
     6800, 6992, 7088, 7232, 7248, 42528, 43216, 43264, 43472, 43504, 43600, 44016,
     65296, 66720, 68912, 69734, 69872, 69942, 70096, 70384, 70736, 70864, 71248,
     71360, 71472, 71904, 72016, 72784, 73040, 73120, 92768, 92864, 93008, 120782,
     120792, 120802, 120812, 120822, 123200, 123632, 125264, 130032]"

definition decimal_value :: "pchar \<Rightarrow> nat option" where
  "decimal_value c =
     (case find (\<lambda>z. z \<le> c \<and> c \<le> z + 9) decimal_zeros of
        None \<Rightarrow> None
      | Some z \<Rightarrow> Some (c - z))"

definition is_decimal :: "pchar \<Rightarrow> bool" where
  "is_decimal c = (decimal_value c \<noteq> None)"

definition digit_extra :: "(pchar \<times> pchar) list" where
  "digit_extra = [(178, 179), (185, 185), (4969, 4977), (6618, 6618), (8304, 8304),
     (8308, 8313), (8320, 8329), (9312, 9320), (9332, 9340), (9352, 9360),
     (9450, 9450), (9461, 9469), (9471, 9471), (10102, 10110), (10112, 10120),
     (10122, 10130), (68160, 68163), (69216, 69224), (69714, 69722),
     (127232, 127242)]"

definition is_digit :: "pchar \<Rightarrow> bool" where
  "is_digit c = (is_decimal c \<or> list_ex (\<lambda>(lo, hi). lo \<le> c \<and> c \<le> hi) digit_extra)"

text \<open>\<^verbatim>\<open>s.startswith(p)\<close>, \<^verbatim>\<open>s.strip()\<close>, \<^verbatim>\<open>s.split()\<close>, \<^verbatim>\<open>s.isdigit()\<close> and
  \<^verbatim>\<open>s.zfill(width)\<close>.\<close>

definition startswith :: "pstr \<Rightarrow> pstr \<Rightarrow> bool" where
  "startswith s p = (take (length p) s = p)"

definition strip :: "pstr \<Rightarrow> pstr" where
  "strip s = rev (dropWhile is_space (rev (dropWhile is_space s)))"

function split_ws :: "pstr \<Rightarrow> pstr list" where
  "split_ws s =
     (case dropWhile is_space s of
        [] \<Rightarrow> []
      | c # cs \<Rightarrow> (c # takeWhile (\<lambda>x. \<not> is_space x) cs)
                 # split_ws (dropWhile (\<lambda>x. \<not> is_space x) cs))"
  by pat_completeness auto
termination
proof (relation "measure length", goal_cases)
  case 1
  show ?case by simp
next
  case (2 s c cs)
  have "length (dropWhile (\<lambda>x. \<not> is_space x) cs) \<le> length cs"
    by (rule length_dropWhile_le)
  moreover have "length (dropWhile is_space s) \<le> length s"
    by (rule length_dropWhile_le)
  ultimately show ?case using 2 by simp
qed

declare split_ws.simps [simp del]

definition isdigit :: "pstr \<Rightarrow> bool" where
  "isdigit s = (s \<noteq> [] \<and> list_all is_digit s)"

definition zfill :: "pstr \<Rightarrow> nat \<Rightarrow> pstr" where
  "zfill s width =
     (if width \<le> length s then s
      else (case s of
              [] \<Rightarrow> replicate width 48
            | c # cs \<Rightarrow>
                if c = 43 \<or> c = 45 then c # replicate (width - length s) 48 @ cs
                else replicate (width - length s) 48 @ s))"

section \<open>Errors, integers and their text\<close>

text \<open>
  The exceptions the code can raise: \<^verbatim>\<open>ValueError\<close> (from \<^verbatim>\<open>int\<close> on text that is no
  integer literal and from \<^verbatim>\<open>datetime.replace\<close> on a field out of range) and
  \<^verbatim>\<open>OverflowError\<close> (from \<^verbatim>\<open>timedelta\<close> and from datetime arithmetic leaving the
  representable range). A function that can raise returns \<open>py_error + 'a\<close>.
\<close>

datatype py_error = ValueError | OverflowError

text \<open>
  \<^verbatim>\<open>int(s)\<close> for a string: surrounding whitespace is skipped (below code point 127 only
  the C \<^verbatim>\<open>isspace\<close> characters, above it the Unicode whitespace), then an optional sign,
  then decimal digits of any script, where a single underscore may stand between two
  digits. Anything else raises \<^verbatim>\<open>ValueError\<close>. Python integers are unbounded, but
  the conversion from text refuses, with \<^verbatim>\<open>ValueError\<close> again, more than 4300 digits
  (the interpreter's default limit; sign, underscores and whitespace do not count).
\<close>

definition int_space :: "pchar \<Rightarrow> bool" where
  "int_space c = (if c < 127 then c \<in> set [9, 10, 11, 12, 13, 32] else is_space c)"

fun int_digits :: "bool \<Rightarrow> int \<Rightarrow> pstr \<Rightarrow> py_error + int" where
  "int_digits prev acc [] = (if prev then Inr acc else Inl ValueError)"
| "int_digits prev acc (c # cs) =
     (case decimal_value c of
        Some v \<Rightarrow> int_digits True (acc * 10 + int v) cs
      | None \<Rightarrow> if c = 95 \<and> prev then int_digits False acc cs else Inl ValueError)"

definition INT_MAX_STR_DIGITS :: nat where
  "INT_MAX_STR_DIGITS = 4300"

definition py_int :: "pstr \<Rightarrow> py_error + int" where
  "py_int s =
     (let t = rev (dropWhile int_space (rev (dropWhile int_space s)))
      in case t of
           [] \<Rightarrow> Inl ValueError
         | c # cs \<Rightarrow>
             (let body = (if c = 45 \<or> c = 43 then cs else t)
              in if INT_MAX_STR_DIGITS < length (filter (\<lambda>x. x \<noteq> 95) body)
                 then Inl ValueError
                 else (case int_digits False 0 body of
                         Inl e \<Rightarrow> Inl e
                       | Inr v \<Rightarrow> Inr (if c = 45 then - v else v))))"

text \<open>\<^verbatim>\<open>str(n)\<close>, which is what an f-string prints for an integer. The only integers
  the code prints are ones that \<^verbatim>\<open>int\<close> has just read, so the same limit on the way
  back to text is never reached.\<close>

fun str_nat :: "nat \<Rightarrow> pstr" where
  "str_nat n = (if n < 10 then [48 + n] else str_nat (n div 10) @ [48 + n mod 10])"

declare str_nat.simps [simp del]

definition str_int :: "int \<Rightarrow> pstr" where
  "str_int i = (if i < 0 then 45 # str_nat (nat (- i)) else str_nat (nat i))"

text \<open>The number that a string of decimal digits denotes, said without the parser.\<close>

definition digit_of :: "pchar \<Rightarrow> int" where
  "digit_of c = (case decimal_value c of Some v \<Rightarrow> int v | None \<Rightarrow> 0)"

definition decimal_number :: "pstr \<Rightarrow> int" where
  "decimal_number ds = foldl (\<lambda>a c. a * 10 + digit_of c) 0 ds"

section \<open>Timestamps\<close>

text \<open>
  A \<^verbatim>\<open>datetime\<close> is modelled by its calendar day, as the proleptic Gregorian ordinal
  that \<^verbatim>\<open>toordinal()\<close> returns (1 is 0001-01-01 and 3652059 is 9999-12-31), and its
  time-of-day fields. The code never reads year, month or day on their own, and the time
  zone attribute takes no part in the arithmetic and the comparison used here.
  A \<^verbatim>\<open>timedelta\<close> is normalised to days, seconds and microseconds.
\<close>

record datetime =
  ordinal :: int
  hour :: int
  minute :: int
  second :: int
  microsecond :: int

record timedelta =
  days :: int
  seconds :: int
  microseconds :: int

definition MAXORDINAL :: int where
  "MAXORDINAL = 3652059"

definition valid_datetime :: "datetime \<Rightarrow> bool" where
  "valid_datetime d =
     (1 \<le> ordinal d \<and> ordinal d \<le> MAXORDINAL \<and> 0 \<le> hour d \<and> hour d < 24 \<and>
      0 \<le> minute d \<and> minute d < 60 \<and> 0 \<le> second d \<and> second d < 60 \<and>
      0 \<le> microsecond d \<and> microsecond d < 1000000)"

text \<open>\<^verbatim>\<open>timedelta(days=d, hours=h, minutes=m)\<close> for integer arguments: the constructor
  refuses a magnitude of more than 999999999 days.\<close>

definition timedelta_of :: "int \<Rightarrow> int \<Rightarrow> int \<Rightarrow> py_error + timedelta" where
  "timedelta_of d h m =
     (let total = (d * 24 + h) * 3600 + m * 60;
          dd = total div 86400
      in if dd < - 999999999 \<or> 999999999 < dd then Inl OverflowError
         else Inr \<lparr>days = dd, seconds = total mod 86400, microseconds = 0\<rparr>)"

text \<open>\<^verbatim>\<open>dt + delta\<close>: the fields are added and the carries normalised
  (\<open>normalize_sum\<close>); a day outside the years 1 to 9999 raises \<^verbatim>\<open>OverflowError\<close>.\<close>

definition normalize_sum :: "datetime \<Rightarrow> timedelta \<Rightarrow> datetime" where
  "normalize_sum d td =
     (let us = microsecond d + microseconds td;
          s = second d + seconds td + us div 1000000;
          mi = minute d + s div 60;
          h = hour d + mi div 60
      in \<lparr>ordinal = ordinal d + days td + h div 24, hour = h mod 24, minute = mi mod 60,
           second = s mod 60, microsecond = us mod 1000000\<rparr>)"

definition datetime_add :: "datetime \<Rightarrow> timedelta \<Rightarrow> py_error + datetime" where
  "datetime_add d td =
     (let r = normalize_sum d td
      in if ordinal r < 1 \<or> MAXORDINAL < ordinal r then Inl OverflowError else Inr r)"

text \<open>
  What the arithmetic means: the microseconds from the start of day 0 to a timestamp, and
  the microseconds a \<^verbatim>\<open>timedelta\<close> stands for. ``The reference time plus \<open>n\<close> minutes''
  is the valid timestamp whose count is that of the reference time plus \<open>n\<close> times
  sixty million.
\<close>

definition valid_time :: "datetime \<Rightarrow> bool" where
  "valid_time d = (0 \<le> hour d \<and> hour d < 24 \<and> 0 \<le> minute d \<and> minute d < 60 \<and>
      0 \<le> second d \<and> second d < 60 \<and> 0 \<le> microsecond d \<and> microsecond d < 1000000)"

definition DAY_US :: int where
  "DAY_US = 86400000000"

definition to_us :: "datetime \<Rightarrow> int" where
  "to_us d = (((ordinal d * 24 + hour d) * 60 + minute d) * 60 + second d) * 1000000
             + microsecond d"

definition delta_us :: "timedelta \<Rightarrow> int" where
  "delta_us td = (days td * 86400 + seconds td) * 1000000 + microseconds td"

text \<open>\<^verbatim>\<open>dt.replace(...)\<close>: an argument that does not fit a C int raises
  \<^verbatim>\<open>OverflowError\<close>, a field out of its range raises \<^verbatim>\<open>ValueError\<close>.\<close>

definition C_INT_MAX :: int where
  "C_INT_MAX = 2147483647"

definition replace_hour_minute :: "datetime \<Rightarrow> int \<Rightarrow> int \<Rightarrow> py_error + datetime" where
  \<comment> \<open>\<^verbatim>\<open>replace(hour=h, minute=m, second=0, microsecond=0)\<close>\<close>
  "replace_hour_minute d h m =
     (if C_INT_MAX < h \<or> C_INT_MAX < m then Inl OverflowError
      else if 0 \<le> h \<and> h \<le> 23 \<and> 0 \<le> m \<and> m \<le> 59
      then Inr (d\<lparr>hour := h, minute := m, second := 0, microsecond := 0\<rparr>)
      else Inl ValueError)"

definition replace_minute :: "datetime \<Rightarrow> int \<Rightarrow> py_error + datetime" where
  \<comment> \<open>\<^verbatim>\<open>replace(minute=m, second=0, microsecond=0)\<close>\<close>
  "replace_minute d m =
     (if C_INT_MAX < m then Inl OverflowError
      else if 0 \<le> m \<and> m \<le> 59
      then Inr (d\<lparr>minute := m, second := 0, microsecond := 0\<rparr>)
      else Inl ValueError)"

definition replace_second :: "datetime \<Rightarrow> datetime" where
  \<comment> \<open>\<^verbatim>\<open>replace(second=0, microsecond=0)\<close>\<close>
  "replace_second d = d\<lparr>second := 0, microsecond := 0\<rparr>"

definition datetime_le :: "datetime \<Rightarrow> datetime \<Rightarrow> bool" where
  \<comment> \<open>\<^verbatim>\<open>a <= b\<close>: the fields compared in order\<close>
  "datetime_le a b =
     (ordinal a < ordinal b \<or> (ordinal a = ordinal b \<and>
       (hour a < hour b \<or> (hour a = hour b \<and>
         (minute a < minute b \<or> (minute a = minute b \<and>
           (second a < second b \<or> (second a = second b \<and>
             microsecond a \<le> microsecond b))))))))"

section \<open>The regular expression of the interval syntax\<close>

text \<open>
  \<^verbatim>\<open>re.search(r'@every\s+(\d+)([mhd])', s)\<close> tries every start position from the left
  and returns the two groups of the first match. At one position the match is
  deterministic: no character is both whitespace and a decimal digit, and none of
  \<^verbatim>\<open>m\<close>, \<^verbatim>\<open>h\<close>, \<^verbatim>\<open>d\<close> is a decimal digit, so the greedy runs cannot be shortened to
  any effect and the whole runs of whitespace and of digits are taken.
\<close>

definition match_every_at :: "pstr \<Rightarrow> (pstr \<times> pchar) option" where
  "match_every_at s =
     (if \<not> startswith s (enc ''@every'') then None
      else
        (let r = drop 6 s;
             r1 = dropWhile is_space r;
             digits = takeWhile is_decimal r1
         in if r1 = r \<or> digits = [] then None
            else (case dropWhile is_decimal r1 of
                    [] \<Rightarrow> None
                  | u # _ \<Rightarrow> if u \<in> set (enc ''mhd'') then Some (digits, u) else None)))"

fun re_search_every :: "pstr \<Rightarrow> (pstr \<times> pchar) option" where
  "re_search_every [] = None"
| "re_search_every (c # cs) =
     (case match_every_at (c # cs) of
        Some g \<Rightarrow> Some g
      | None \<Rightarrow> re_search_every cs)"

text \<open>
  What the pattern describes, said without the search: a token at the start of \<open>s\<close> is
  the text \<^verbatim>\<open>@every\<close>, then whitespace, then decimal digits, then one of the unit
  letters; a string has a token if one starts at some position.
\<close>

definition every_token_at :: "pstr \<Rightarrow> pstr \<Rightarrow> pchar \<Rightarrow> bool" where
  "every_token_at s digits u =
     (\<exists>ws rest. s = enc ''@every'' @ ws @ digits @ u # rest
        \<and> ws \<noteq> [] \<and> list_all is_space ws
        \<and> digits \<noteq> [] \<and> list_all is_decimal digits
        \<and> u \<in> set (enc ''mhd''))"

definition has_every_token :: "pstr \<Rightarrow> bool" where
  "has_every_token s = (\<exists>pre suf digits u. s = pre @ suf \<and> every_token_at suf digits u)"

section \<open>The class CronParser\<close>

definition SHORTCUTS :: "pstr \<rightharpoonup> pstr" where
  "SHORTCUTS = map_of
     [(enc ''@yearly'', enc ''0 0 1 1 *''),
      (enc ''@annually'', enc ''0 0 1 1 *''),
      (enc ''@monthly'', enc ''0 0 1 * *''),
      (enc ''@weekly'', enc ''0 0 * * 0''),
      (enc ''@daily'', enc ''0 0 * * *''),
      (enc ''@midnight'', enc ''0 0 * * *''),
      (enc ''@hourly'', enc ''0 * * * *'')]"

definition plural :: "int \<Rightarrow> pstr" where
  \<comment> \<open>\<^verbatim>\<open>'s' if value != 1 else ''\<close>\<close>
  "plural v = (if v \<noteq> 1 then enc ''s'' else [])"

definition parse_every :: "pstr \<Rightarrow> py_error + pstr" where
  "parse_every schedule_str =
     (case re_search_every schedule_str of
        None \<Rightarrow> Inr (enc ''Invalid @every syntax'')
      | Some (digits, unit) \<Rightarrow>
          (case py_int digits of
             Inl e \<Rightarrow> Inl e
           | Inr v \<Rightarrow>
               if unit = 109 then Inr (enc ''Every '' @ str_int v @ enc '' minute'' @ plural v)
               else if unit = 104 then Inr (enc ''Every '' @ str_int v @ enc '' hour'' @ plural v)
               else if unit = 100 then Inr (enc ''Every '' @ str_int v @ enc '' day'' @ plural v)
               else Inr (enc ''Invalid @every syntax'')))"

definition every_phrase :: "pstr \<Rightarrow> pstr \<Rightarrow> py_error + pstr" where
  \<comment> \<open>\<^verbatim>\<open>f"Every {interval} <word>{'s' if int(interval) != 1 else ''}"\<close>\<close>
  "every_phrase interval word =
     (case py_int interval of
        Inl e \<Rightarrow> Inl e
      | Inr v \<Rightarrow> Inr (enc ''Every '' @ interval @ word @ plural v))"

definition describe_standard_cron :: "pstr \<Rightarrow> py_error + pstr" where
  "describe_standard_cron schedule_str =
     (let parts = split_ws schedule_str
      in if length parts \<noteq> 5 then Inr (enc ''Invalid cron syntax: '' @ schedule_str)
         else
           (let minute = parts ! 0; hour = parts ! 1; day = parts ! 2;
                month = parts ! 3; weekday = parts ! 4
            in if minute = enc ''*'' \<and> hour = enc ''*'' then Inr (enc ''Every minute'')
               else if startswith minute (enc ''*/'')
                 then every_phrase (drop 2 minute) (enc '' minute'')
               else if startswith hour (enc ''*/'') \<and> minute = enc ''0''
                 then every_phrase (drop 2 hour) (enc '' hour'')
               else if startswith day (enc ''*/'') \<and> minute = enc ''0'' \<and> hour = enc ''0''
                 then every_phrase (drop 2 day) (enc '' day'')
               else if minute \<noteq> enc ''*'' \<and> hour \<noteq> enc ''*'' \<and> day = enc ''*''
                       \<and> month = enc ''*'' \<and> weekday = enc ''*''
                 then Inr (enc ''Daily at '' @ zfill hour 2 @ enc '':'' @ zfill minute 2)
               else if minute \<noteq> enc ''*'' \<and> hour \<noteq> enc ''*'' \<and> day \<noteq> enc ''*''
                       \<and> month = enc ''*'' \<and> weekday = enc ''*''
                 then Inr (enc ''Monthly on day '' @ day @ enc '' at '' @ zfill hour 2
                           @ enc '':'' @ zfill minute 2)
               else Inr (enc ''Cron: '' @ schedule_str)))"

definition parse_schedule :: "pstr \<Rightarrow> py_error + pstr" where
  "parse_schedule schedule_str0 =
     (let schedule_str = strip schedule_str0
      in case SHORTCUTS schedule_str of
           Some cron \<Rightarrow> describe_standard_cron cron
         | None \<Rightarrow>
             if startswith schedule_str (enc ''@every'') then parse_every schedule_str
             else if startswith schedule_str (enc ''@random'')
               then Inr (enc ''Random (varies per container start)'')
             else describe_standard_cron schedule_str)"

text \<open>
  \<^verbatim>\<open>calculate_next_run\<close>, with the reference time passed by the caller (the default
  \<^verbatim>\<open>None\<close> reads the clock and then proceeds in the same way). \<open>next_run_cron\<close> is
  the part from the shortcut lookup on, which the interval branch falls through to.
\<close>

definition add_delta :: "datetime \<Rightarrow> py_error + timedelta \<Rightarrow> py_error + datetime" where
  \<comment> \<open>\<^verbatim>\<open>from_time + timedelta(...)\<close>: the constructor runs first\<close>
  "add_delta from_time td =
     (case td of Inl e \<Rightarrow> Inl e | Inr delta \<Rightarrow> datetime_add from_time delta)"

definition next_run_cron :: "pstr \<Rightarrow> datetime \<Rightarrow> py_error + datetime" where
  "next_run_cron schedule_str0 from_time =
     (let schedule_str = (case SHORTCUTS schedule_str0 of
                            Some cron \<Rightarrow> cron | None \<Rightarrow> schedule_str0);
          parts = split_ws schedule_str
      in if length parts = 5 then
           (let minute = parts ! 0; hour = parts ! 1
            in if startswith minute (enc ''*/'') then
                 (case py_int (drop 2 minute) of
                    Inl e \<Rightarrow> Inl e
                  | Inr interval \<Rightarrow>
                      (case add_delta from_time (timedelta_of 0 0 interval) of
                         Inl e \<Rightarrow> Inl e
                       | Inr next_run \<Rightarrow> Inr (replace_second next_run)))
               else if startswith hour (enc ''*/'') \<and> isdigit minute then
                 (case py_int (drop 2 hour) of
                    Inl e \<Rightarrow> Inl e
                  | Inr interval \<Rightarrow>
                      (case add_delta from_time (timedelta_of 0 interval 0) of
                         Inl e \<Rightarrow> Inl e
                       | Inr next_run \<Rightarrow>
                           (case py_int minute of
                              Inl e \<Rightarrow> Inl e
                            | Inr m \<Rightarrow> replace_minute next_run m)))
               else if isdigit minute \<and> isdigit hour then
                 (case py_int hour of
                    Inl e \<Rightarrow> Inl e
                  | Inr target_hour \<Rightarrow>
                      (case py_int minute of
                         Inl e \<Rightarrow> Inl e
                       | Inr target_minute \<Rightarrow>
                           (case replace_hour_minute from_time target_hour target_minute of
                              Inl e \<Rightarrow> Inl e
                            | Inr next_run \<Rightarrow>
                                if datetime_le next_run from_time
                                then add_delta next_run (timedelta_of 1 0 0)
                                else Inr next_run)))
               else add_delta from_time (timedelta_of 0 1 0))
         else add_delta from_time (timedelta_of 0 1 0))"

definition calculate_next_run :: "pstr \<Rightarrow> datetime \<Rightarrow> py_error + datetime" where
  "calculate_next_run schedule_str from_time =
     (case (if startswith schedule_str (enc ''@every'')
            then re_search_every schedule_str else None) of
        None \<Rightarrow> next_run_cron schedule_str from_time
      | Some (digits, unit) \<Rightarrow>
          (case py_int digits of
             Inl e \<Rightarrow> Inl e
           | Inr v \<Rightarrow>
               if unit = 109 then add_delta from_time (timedelta_of 0 0 v)
               else if unit = 104 then add_delta from_time (timedelta_of 0 v 0)
               else if unit = 100 then add_delta from_time (timedelta_of v 0 0)
               else next_run_cron schedule_str from_time))"

section \<open>Evaluation on concrete inputs\<close>

lemmas str_eval = enc_def is_space_def space_table_def is_decimal_def decimal_value_def
  decimal_zeros_def is_digit_def digit_extra_def startswith_def strip_def isdigit_def
  zfill_def int_space_def INT_MAX_STR_DIGITS_def py_int_def str_int_def str_nat.simps plural_def split_ws.simps

lemmas cron_eval = match_every_at_def SHORTCUTS_def parse_every_def every_phrase_def
  describe_standard_cron_def parse_schedule_def next_run_cron_def calculate_next_run_def

lemmas time_eval = add_delta_def timedelta_of_def normalize_sum_def datetime_add_def replace_hour_minute_def
  replace_minute_def replace_second_def datetime_le_def C_INT_MAX_def MAXORDINAL_def

section \<open>Facts about the character tables and the string operations\<close>

lemma space_table_not_decimal: "list_all (\<lambda>c. \<not> is_decimal c) space_table"
  by (simp add: space_table_def is_decimal_def decimal_value_def decimal_zeros_def)

lemma space_not_decimal: "is_space c \<Longrightarrow> \<not> is_decimal c"
  using space_table_not_decimal by (simp add: is_space_def list_all_iff)

lemma decimal_is_digit: "is_decimal c \<Longrightarrow> is_digit c"
  by (simp add: is_digit_def)

lemma decimal_value_le9: "decimal_value c = Some v \<Longrightarrow> v \<le> 9"
  by (auto simp add: decimal_value_def find_Some_iff split: option.splits)

lemma dropWhile_idem: "dropWhile P (dropWhile P xs) = dropWhile P xs"
  by (induction xs) auto

lemma split_ws_Nil:
  assumes "dropWhile is_space s = []"
  shows "split_ws s = []"
  by (subst split_ws.simps) (simp only: assms list.case)

lemma split_ws_Cons:
  assumes "dropWhile is_space s = c # cs"
  shows "split_ws s = (c # takeWhile (\<lambda>x. \<not> is_space x) cs)
                  # split_ws (dropWhile (\<lambda>x. \<not> is_space x) cs)"
  by (subst split_ws.simps) (simp only: assms list.case)

lemma split_ws_dropWhile: "split_ws (dropWhile is_space s) = split_ws s"
proof -
  have idem: "dropWhile is_space (dropWhile is_space s) = dropWhile is_space s"
    by (rule dropWhile_idem)
  show ?thesis
  proof (cases "dropWhile is_space s")
    case Nil
    have "split_ws (dropWhile is_space s) = []"
      by (rule split_ws_Nil, subst idem, rule Nil)
    moreover have "split_ws s = []"
      by (rule split_ws_Nil) (rule Nil)
    ultimately show ?thesis by simp
  next
    case (Cons c cs)
    have "split_ws (dropWhile is_space s) = (c # takeWhile (\<lambda>x. \<not> is_space x) cs)
                  # split_ws (dropWhile (\<lambda>x. \<not> is_space x) cs)"
      by (rule split_ws_Cons, subst idem, rule Cons)
    moreover have "split_ws s = (c # takeWhile (\<lambda>x. \<not> is_space x) cs)
                  # split_ws (dropWhile (\<lambda>x. \<not> is_space x) cs)"
      by (rule split_ws_Cons) (rule Cons)
    ultimately show ?thesis by simp
  qed
qed

lemma split_ws_spaces: "list_all is_space ws \<Longrightarrow> split_ws ws = []"
  by (rule split_ws_Nil) (simp add: list_all_iff dropWhile_eq_Nil_conv)

lemma takeWhile_append_spaces:
  "list_all is_space ws \<Longrightarrow>
     takeWhile (\<lambda>x. \<not> is_space x) (cs @ ws) = takeWhile (\<lambda>x. \<not> is_space x) cs"
  by (induction cs) (auto simp add: list_all_iff takeWhile_eq_Nil_iff intro: hd_in_set)

lemma dropWhile_append_spaces:
  "list_all is_space ws \<Longrightarrow>
     dropWhile (\<lambda>x. \<not> is_space x) (cs @ ws) = dropWhile (\<lambda>x. \<not> is_space x) cs @ ws"
  by (induction cs) (auto simp add: list_all_iff dropWhile_eq_self_iff intro: hd_in_set)

lemma dropWhile_space_append:
  "dropWhile is_space s = c # cs \<Longrightarrow> dropWhile is_space (s @ ws) = c # cs @ ws"
  by (induction s) (auto split: if_splits)

lemma split_ws_append_spaces:
  "list_all is_space ws \<Longrightarrow> split_ws (s @ ws) = split_ws s"
proof (induction s rule: split_ws.induct)
  case (1 s)
  show ?case
  proof (cases "dropWhile is_space s")
    case Nil
    then have "list_all is_space (s @ ws)"
      using 1(2) by (auto simp add: list_all_iff dropWhile_eq_Nil_conv)
    then have "split_ws (s @ ws) = []"
      by (rule split_ws_spaces)
    moreover have "split_ws s = []"
      using Nil by (intro split_ws_spaces) (simp add: list_all_iff dropWhile_eq_Nil_conv)
    ultimately show ?thesis by simp
  next
    case (Cons c cs)
    have IH: "split_ws (dropWhile (\<lambda>x. \<not> is_space x) cs @ ws)
        = split_ws (dropWhile (\<lambda>x. \<not> is_space x) cs)"
      using 1(1) [OF Cons] 1(2) by simp
    show ?thesis
      by (simp add: split_ws_Cons [OF Cons] split_ws_Cons [OF dropWhile_space_append [OF Cons]]
            takeWhile_append_spaces [OF 1(2)] dropWhile_append_spaces [OF 1(2)] IH)
  qed
qed

lemma strip_decomp:
  "dropWhile is_space s = strip s @ rev (takeWhile is_space (rev (dropWhile is_space s)))"
proof -
  define u where "u = rev (dropWhile is_space s)"
  have "rev (dropWhile is_space u) @ rev (takeWhile is_space u)
      = rev (takeWhile is_space u @ dropWhile is_space u)"
    by (simp only: rev_append)
  also have "\<dots> = rev u" by simp
  finally show ?thesis by (simp add: strip_def u_def)
qed

lemma split_ws_strip: "split_ws (strip s) = split_ws s"
proof -
  have "list_all is_space (rev (takeWhile is_space (rev (dropWhile is_space s))))"
    by (auto simp add: list_all_iff dest: set_takeWhileD)
  then have "split_ws (strip s @ rev (takeWhile is_space (rev (dropWhile is_space s))))
      = split_ws (strip s)"
    by (rule split_ws_append_spaces)
  then show ?thesis
    using strip_decomp [of s] split_ws_dropWhile [of s] by simp
qed

lemma split_ws_fields:
  "f \<in> set (split_ws s) \<Longrightarrow> f \<noteq> [] \<and> (\<forall>c\<in>set f. \<not> is_space c)"
proof (induction s rule: split_ws.induct)
  case (1 s)
  show ?case
  proof (cases "dropWhile is_space s")
    case Nil
    with 1(2) show ?thesis by (simp add: split_ws_Nil [OF Nil])
  next
    case (Cons c cs)
    have c: "\<not> is_space c"
      using hd_dropWhile [of is_space s] Cons by simp
    from 1(2) have "f = c # takeWhile (\<lambda>x. \<not> is_space x) cs
        \<or> f \<in> set (split_ws (dropWhile (\<lambda>x. \<not> is_space x) cs))"
      by (simp add: split_ws_Cons [OF Cons])
    then show ?thesis
    proof
      assume "f = c # takeWhile (\<lambda>x. \<not> is_space x) cs"
      then show ?thesis using c by (auto dest: set_takeWhileD)
    next
      assume "f \<in> set (split_ws (dropWhile (\<lambda>x. \<not> is_space x) cs))"
      then show ?thesis by (rule 1(1) [OF Cons])
    qed
  qed
qed

lemma first_field:
  assumes "split_ws s = f # fs"
  shows "\<exists>rest. dropWhile is_space s = f @ rest \<and> (rest = [] \<or> is_space (hd rest))"
proof (cases "dropWhile is_space s")
  case Nil
  with assms show ?thesis by (simp add: split_ws_Nil [OF Nil])
next
  case (Cons c cs)
  from assms have f: "f = c # takeWhile (\<lambda>x. \<not> is_space x) cs"
    by (simp add: split_ws_Cons [OF Cons])
  have "dropWhile (\<lambda>x. \<not> is_space x) cs = [] \<or> is_space (hd (dropWhile (\<lambda>x. \<not> is_space x) cs))"
    using hd_dropWhile [of "\<lambda>x. \<not> is_space x" cs] by auto
  moreover have "dropWhile is_space s = f @ dropWhile (\<lambda>x. \<not> is_space x) cs"
    by (simp add: Cons f)
  ultimately show ?thesis by blast
qed

lemma strip_no_leading_space: "dropWhile is_space (strip s) = strip s"
proof (cases "strip s")
  case Nil
  then show ?thesis by simp
next
  case (Cons c cs)
  obtain t where t: "dropWhile is_space s = strip s @ t"
    using strip_decomp [of s] by blast
  then have "dropWhile is_space s = c # cs @ t" by (simp add: Cons)
  then have "\<not> is_space c"
    using hd_dropWhile [of is_space s] by simp
  then show ?thesis by (simp add: Cons)
qed

lemma strip_first_field:
  assumes "split_ws s = f # fs"
  shows "\<exists>rest. strip s = f @ rest \<and> (rest = [] \<or> is_space (hd rest))"
proof -
  have "split_ws (strip s) = f # fs"
    using assms by (simp add: split_ws_strip)
  from first_field [OF this] show ?thesis
    by (simp add: strip_no_leading_space)
qed

lemma startswith_field:
  assumes "rest = [] \<or> is_space (hd rest)" and "\<forall>c\<in>set p. \<not> is_space c"
  shows "startswith (f @ rest) p = startswith f p"
proof (cases "length p \<le> length f")
  case True
  then show ?thesis by (simp add: startswith_def)
next
  case False
  then have long: "length f < length p" by simp
  then have no: "\<not> startswith f p"
    by (auto simp add: startswith_def)
  have "\<not> startswith (f @ rest) p"
  proof
    assume "startswith (f @ rest) p"
    then have p: "p = f @ take (length p - length f) rest"
      using long by (simp add: startswith_def)
    show False
    proof (cases rest)
      case Nil
      with p long show False by simp
    next
      case (Cons r rs)
      with assms(1) have "is_space r" by simp
      moreover from long obtain k where "length p - length f = Suc k"
        by (cases "length p - length f") auto
      with p Cons have "r \<in> set p"
        by (metis append_Cons in_set_conv_decomp take_Suc_Cons)
      ultimately show False using assms(2) by blast
    qed
  qed
  with no show ?thesis by simp
qed

lemma startswith_strip_field:
  assumes "split_ws s = f # fs" and "\<forall>c\<in>set p. \<not> is_space c"
  shows "startswith (strip s) p = startswith f p"
  using strip_first_field [OF assms(1)] startswith_field [OF _ assms(2)] by auto

lemma shortcut_key_one_field: "SHORTCUTS k = Some c \<Longrightarrow> length (split_ws k) = 1"
  by (auto simp add: SHORTCUTS_def split: if_splits) (simp_all add: str_eval)

lemma not_shortcut_if_five: "length (split_ws s) = 5 \<Longrightarrow> SHORTCUTS s = None"
  using shortcut_key_one_field [of s] by (cases "SHORTCUTS s") auto

section \<open>Facts about the conversion of digits\<close>

lemma int_digits_decimal:
  "list_all is_decimal ds \<Longrightarrow> ds \<noteq> [] \<or> p \<Longrightarrow>
     int_digits p acc ds = Inr (foldl (\<lambda>a c. a * 10 + digit_of c) acc ds)"
proof (induction ds arbitrary: p acc)
  case Nil
  then show ?case by simp
next
  case (Cons c cs)
  from Cons.prems(1) obtain v where v: "decimal_value c = Some v"
    by (auto simp add: is_decimal_def)
  have "int_digits True (acc * 10 + int v) cs
      = Inr (foldl (\<lambda>a c. a * 10 + digit_of c) (acc * 10 + int v) cs)"
    using Cons.prems(1) by (intro Cons.IH) simp_all
  then show ?case by (simp add: v digit_of_def)
qed

lemma int_space_is_space: "int_space c \<Longrightarrow> is_space c"
  by (auto simp add: int_space_def is_space_def space_table_def split: if_splits)

lemma decimal_not_int_space: "is_decimal c \<Longrightarrow> \<not> int_space c"
  using int_space_is_space space_not_decimal by blast

lemma sign_not_decimal: "\<not> is_decimal 45" "\<not> is_decimal 43" "\<not> is_decimal 95"
  by (simp_all add: is_decimal_def decimal_value_def decimal_zeros_def)

lemma dropWhile_no_head: "xs \<noteq> [] \<Longrightarrow> \<not> P (hd xs) \<Longrightarrow> dropWhile P xs = xs"
  by (cases xs) simp_all

lemma int_strip_decimal:
  assumes "ds \<noteq> []" and "list_all is_decimal ds"
  shows "rev (dropWhile int_space (rev (dropWhile int_space ds))) = ds"
proof -
  have "is_decimal (hd ds)" and "is_decimal (last ds)"
    using assms by (simp_all add: list_all_iff)
  then have h: "\<not> int_space (hd ds)" and l: "\<not> int_space (last ds)"
    by (simp_all add: decimal_not_int_space)
  have "dropWhile int_space ds = ds"
    using assms(1) h by (rule dropWhile_no_head)
  moreover have "dropWhile int_space (rev ds) = rev ds"
    using assms(1) l by (intro dropWhile_no_head) (simp_all add: hd_rev)
  ultimately show ?thesis by simp
qed

lemma py_int_decimal:
  assumes "ds \<noteq> []" and "list_all is_decimal ds"
  shows "py_int ds = (if INT_MAX_STR_DIGITS < length ds then Inl ValueError
                      else Inr (decimal_number ds))"
proof -
  obtain c cs where ds: "ds = c # cs" using assms(1) by (cases ds) auto
  have c: "is_decimal c" using assms(2) by (simp add: ds)
  then have c45: "c \<noteq> 45" and c43: "c \<noteq> 43"
    using sign_not_decimal by auto
  have "\<forall>x\<in>set ds. x \<noteq> 95"
    using assms(2) sign_not_decimal(3) by (auto simp add: list_all_iff)
  then have f: "filter (\<lambda>x. x \<noteq> 95) ds = ds"
    by (simp add: filter_id_conv)
  have i: "int_digits False 0 ds = Inr (decimal_number ds)"
    unfolding decimal_number_def using assms by (intro int_digits_decimal) simp_all
  have st: "rev (dropWhile int_space (rev (dropWhile int_space (c # cs)))) = c # cs"
    using int_strip_decimal [OF assms] by (simp only: ds)
  show ?thesis
    using c45 c43 i [unfolded ds] f [unfolded ds]
    unfolding ds py_int_def st Let_def
    by (simp del: int_digits.simps filter.simps)
qed

lemma decimal_number_nonneg: "0 \<le> decimal_number ds"
proof -
  have "0 \<le> acc \<Longrightarrow> 0 \<le> foldl (\<lambda>a c. a * 10 + digit_of c) acc ds" for acc
  proof (induction ds arbitrary: acc)
    case Nil
    then show ?case by simp
  next
    case (Cons c cs)
    have "0 \<le> digit_of c" by (simp add: digit_of_def split: option.splits)
    with Cons.prems have "0 \<le> acc * 10 + digit_of c" by simp
    then show ?case using Cons.IH by simp
  qed
  then show ?thesis by (simp add: decimal_number_def)
qed

lemma decimal_value_ascii: "d < 10 \<Longrightarrow> decimal_value (48 + d) = Some d"
  by (simp add: decimal_value_def decimal_zeros_def)

lemma str_nat_decimal: "list_all is_decimal (str_nat n)"
proof (induction n rule: str_nat.induct)
  case (1 n)
  have d: "is_decimal (48 + n mod 10)"
    by (simp add: is_decimal_def decimal_value_ascii)
  show ?case
  proof (cases "n < 10")
    case True
    then show ?thesis
      by (subst str_nat.simps) (simp add: is_decimal_def decimal_value_ascii)
  next
    case False
    then have "list_all is_decimal (str_nat (n div 10))" by (rule 1)
    with False d show ?thesis by (subst str_nat.simps) simp
  qed
qed

lemma str_nat_not_Nil: "str_nat n \<noteq> []"
  by (subst str_nat.simps) simp

lemma foldl_digits_snoc:
  "foldl (\<lambda>a c. a * 10 + digit_of c) acc (xs @ [c])
     = foldl (\<lambda>a c. a * 10 + digit_of c) acc xs * 10 + digit_of c"
  by simp

lemma digit_of_ascii: "d < 10 \<Longrightarrow> digit_of (48 + d) = int d"
  by (simp add: digit_of_def decimal_value_ascii)

lemma decimal_number_str_nat: "decimal_number (str_nat n) = int n"
proof (induction n rule: str_nat.induct)
  case (1 n)
  show ?case
  proof (cases "n < 10")
    case True
    then show ?thesis
      by (subst str_nat.simps) (simp add: decimal_number_def digit_of_ascii)
  next
    case False
    then have IH: "decimal_number (str_nat (n div 10)) = int (n div 10)" by (rule 1)
    have "decimal_number (str_nat n)
        = decimal_number (str_nat (n div 10)) * 10 + digit_of (48 + n mod 10)"
      using False by (subst str_nat.simps) (simp add: decimal_number_def)
    also have "\<dots> = int (n div 10) * 10 + int (n mod 10)"
      by (simp add: IH digit_of_ascii)
    also have "\<dots> = int n"
      by (simp add: zdiv_int zmod_int)
    finally show ?thesis .
  qed
qed

lemma length_str_nat: "n < 10 ^ k \<Longrightarrow> 0 < k \<Longrightarrow> length (str_nat n) \<le> k"
proof (induction n arbitrary: k rule: str_nat.induct)
  case (1 n)
  show ?case
  proof (cases "n < 10")
    case True
    then show ?thesis using 1(3) by (subst str_nat.simps) simp
  next
    case False
    obtain j where k: "k = Suc j" using 1(3) by (cases k) auto
    from False 1(2) have j: "0 < j" unfolding k by (cases j) auto
    have "n div 10 < 10 ^ j"
      using 1(2) unfolding k by (simp add: less_mult_imp_div_less mult.commute)
    then have "length (str_nat (n div 10)) \<le> j"
      using False j by (intro 1(1)) simp_all
    then show ?thesis using False by (subst str_nat.simps) (simp add: k)
  qed
qed

section \<open>Facts about the description of five-field strings\<close>

lemma every_no_space: "\<forall>c\<in>set (enc ''@every''). \<not> is_space c"
  by (simp add: enc_def is_space_def space_table_def)

lemma random_no_space: "\<forall>c\<in>set (enc ''@random''). \<not> is_space c"
  by (simp add: enc_def is_space_def space_table_def)

lemma parse_schedule_five_fields:
  assumes "split_ws s = [mi, hr, dy, mo, wd]"
      and "\<not> startswith mi (enc ''@every'')"
      and "\<not> startswith mi (enc ''@random'')"
  shows "parse_schedule s = describe_standard_cron (strip s)"
proof -
  have "length (split_ws (strip s)) = 5"
    using assms(1) by (simp add: split_ws_strip)
  then have "SHORTCUTS (strip s) = None"
    by (rule not_shortcut_if_five)
  moreover have "\<not> startswith (strip s) (enc ''@every'')"
    using assms(2) startswith_strip_field [OF assms(1) every_no_space] by simp
  moreover have "\<not> startswith (strip s) (enc ''@random'')"
    using assms(3) startswith_strip_field [OF assms(1) random_no_space] by simp
  ultimately show ?thesis by (simp add: parse_schedule_def)
qed

lemma startswith_length:
  assumes "startswith s p"
  shows "length p \<le> length s"
proof -
  from assms have "p = take (length p) s"
    by (simp add: startswith_def)
  then have "length p = length (take (length p) s)"
    by (rule arg_cong [where f = length])
  then show ?thesis by simp
qed

section \<open>Facts about timestamps\<close>

lemma carry: "(q + a div n) * n + a mod n = q * n + (a::int)"
proof -
  have "(q + a div n) * n + a mod n = q * n + (a div n * n + a mod n)"
    by (simp only: distrib_right add.assoc)
  then show ?thesis by (simp only: div_mult_mod_eq)
qed

lemma normalize_sum_to_us: "to_us (normalize_sum d td) = to_us d + delta_us td"
proof -
  define A where "A = ordinal d + days td"
  define us where "us = microsecond d + microseconds td"
  define s where "s = second d + seconds td + us div 1000000"
  define mi where "mi = minute d + s div 60"
  define h where "h = hour d + mi div 60"
  have r: "normalize_sum d td = \<lparr>ordinal = A + h div 24, hour = h mod 24, minute = mi mod 60,
        second = s mod 60, microsecond = us mod 1000000\<rparr>"
    unfolding A_def h_def mi_def s_def us_def by (simp add: normalize_sum_def Let_def)
  have 1: "(A + h div 24) * 24 + h mod 24 = A * 24 + h"
    by (rule carry)
  have 2: "(A * 24 + h) * 60 + mi mod 60 = (A * 24 + hour d) * 60 + mi"
    unfolding h_def by (simp only: add.assoc [symmetric] carry)
  have 3: "((A * 24 + hour d) * 60 + mi) * 60 + s mod 60
      = ((A * 24 + hour d) * 60 + minute d) * 60 + s"
    unfolding mi_def by (simp only: add.assoc [symmetric] carry)
  have 4: "(((A * 24 + hour d) * 60 + minute d) * 60 + s) * 1000000 + us mod 1000000
      = (((A * 24 + hour d) * 60 + minute d) * 60 + second d + seconds td) * 1000000 + us"
    unfolding s_def by (simp only: add.assoc [symmetric] carry)
  have "to_us (normalize_sum d td)
      = ((((A + h div 24) * 24 + h mod 24) * 60 + mi mod 60) * 60 + s mod 60) * 1000000
        + us mod 1000000"
    by (simp add: r to_us_def)
  also have "\<dots> = (((A * 24 + hour d) * 60 + minute d) * 60 + second d + seconds td) * 1000000 + us"
    by (simp only: 1 2 3 4)
  also have "\<dots> = to_us d + delta_us td"
    unfolding A_def us_def to_us_def delta_us_def by (simp add: algebra_simps)
  finally show ?thesis .
qed

lemma normalize_sum_valid_time: "valid_time (normalize_sum d td)"
  by (simp add: normalize_sum_def Let_def valid_time_def)

lemma valid_datetime_iff:
  "valid_datetime d = (1 \<le> ordinal d \<and> ordinal d \<le> MAXORDINAL \<and> valid_time d)"
  by (simp add: valid_datetime_def valid_time_def)

lemma datetime_add_Inr:
  assumes "datetime_add d td = Inr r"
  shows "r = normalize_sum d td" and "valid_datetime r"
proof -
  from assms show r: "r = normalize_sum d td"
    by (simp add: datetime_add_def Let_def split: if_splits)
  from assms have "1 \<le> ordinal (normalize_sum d td) \<and> ordinal (normalize_sum d td) \<le> MAXORDINAL"
    by (simp add: datetime_add_def Let_def split: if_splits)
  then show "valid_datetime r"
    by (simp add: valid_datetime_iff r normalize_sum_valid_time)
qed

lemma time_of_day_bound:
  fixes a b c e :: int
  assumes "0 \<le> a" "a < 24" "0 \<le> b" "b < 60" "0 \<le> c" "c < 60" "0 \<le> e" "e < 1000000"
  shows "0 \<le> ((a * 60 + b) * 60 + c) * 1000000 + e"
    and "((a * 60 + b) * 60 + c) * 1000000 + e < DAY_US"
  using assms by (simp_all add: DAY_US_def)

lemma to_us_split:
  "to_us d = ordinal d * DAY_US
     + (((hour d * 60 + minute d) * 60 + second d) * 1000000 + microsecond d)"
  by (simp add: to_us_def DAY_US_def algebra_simps)

lemma to_us_lower: "valid_time d \<Longrightarrow> ordinal d * DAY_US \<le> to_us d"
  using time_of_day_bound(1) [of "hour d" "minute d" "second d" "microsecond d"]
  by (simp add: to_us_split valid_time_def)

lemma to_us_upper: "valid_time d \<Longrightarrow> to_us d < ordinal d * DAY_US + DAY_US"
  using time_of_day_bound(2) [of "hour d" "minute d" "second d" "microsecond d"]
  by (simp add: to_us_split valid_time_def)

lemma datetime_add_in_range:
  assumes "DAY_US \<le> to_us d + delta_us td"
      and "to_us d + delta_us td < (MAXORDINAL + 1) * DAY_US"
  shows "datetime_add d td = Inr (normalize_sum d td)"
proof -
  define r where "r = normalize_sum d td"
  have t: "to_us r = to_us d + delta_us td"
    unfolding r_def by (rule normalize_sum_to_us)
  have v: "valid_time r"
    unfolding r_def by (rule normalize_sum_valid_time)
  have lo: "ordinal r * DAY_US \<le> to_us r" using v by (rule to_us_lower)
  have hi: "to_us r < ordinal r * DAY_US + DAY_US" using v by (rule to_us_upper)
  from hi assms(1) t have "1 \<le> ordinal r"
    by (simp add: DAY_US_def)
  moreover from lo assms(2) t have "ordinal r \<le> MAXORDINAL"
    by (simp add: DAY_US_def MAXORDINAL_def)
  ultimately show ?thesis
    by (simp add: datetime_add_def Let_def r_def [symmetric])
qed

lemma datetime_add_overflow:
  assumes "(MAXORDINAL + 1) * DAY_US \<le> to_us d + delta_us td"
  shows "datetime_add d td = Inl OverflowError"
proof -
  define r where "r = normalize_sum d td"
  have t: "to_us r = to_us d + delta_us td"
    unfolding r_def by (rule normalize_sum_to_us)
  have v: "valid_time r"
    unfolding r_def by (rule normalize_sum_valid_time)
  have hi: "to_us r < ordinal r * DAY_US + DAY_US" using v by (rule to_us_upper)
  from hi assms t have "MAXORDINAL < ordinal r"
    by (simp add: DAY_US_def MAXORDINAL_def)
  then show ?thesis
    by (simp add: datetime_add_def Let_def r_def [symmetric])
qed

lemma radix_unique:
  fixes q q' r r' n :: int
  assumes "q * n + r = q' * n + r'" and "0 \<le> r" "r < n" "0 \<le> r'" "r' < n"
  shows "q = q'" and "r = r'"
proof -
  have "(q * n + r) div n = q" using assms(2,3) by simp
  moreover have "(q' * n + r') div n = q'" using assms(4,5) by simp
  ultimately show "q = q'" using assms(1) by simp
  then show "r = r'" using assms(1) by simp
qed

lemma to_us_inject:
  assumes "valid_time a" and "valid_time b" and "to_us a = to_us b"
  shows "a = b"
proof -
  from assms(1) have va: "0 \<le> hour a" "hour a < 24" "0 \<le> minute a" "minute a < 60"
      "0 \<le> second a" "second a < 60" "0 \<le> microsecond a" "microsecond a < 1000000"
    by (simp_all add: valid_time_def)
  from assms(2) have vb: "0 \<le> hour b" "hour b < 24" "0 \<le> minute b" "minute b < 60"
      "0 \<le> second b" "second b < 60" "0 \<le> microsecond b" "microsecond b < 1000000"
    by (simp_all add: valid_time_def)
  have e1: "(((ordinal a * 24 + hour a) * 60 + minute a) * 60 + second a) * 1000000 + microsecond a
      = (((ordinal b * 24 + hour b) * 60 + minute b) * 60 + second b) * 1000000 + microsecond b"
    using assms(3) by (simp only: to_us_def)
  have us: "microsecond a = microsecond b"
    using e1 va(7,8) vb(7,8) by (rule radix_unique(2))
  have e2: "((ordinal a * 24 + hour a) * 60 + minute a) * 60 + second a
      = ((ordinal b * 24 + hour b) * 60 + minute b) * 60 + second b"
    using e1 va(7,8) vb(7,8) by (rule radix_unique(1))
  have s: "second a = second b"
    using e2 va(5,6) vb(5,6) by (rule radix_unique(2))
  have e3: "(ordinal a * 24 + hour a) * 60 + minute a = (ordinal b * 24 + hour b) * 60 + minute b"
    using e2 va(5,6) vb(5,6) by (rule radix_unique(1))
  have m: "minute a = minute b"
    using e3 va(3,4) vb(3,4) by (rule radix_unique(2))
  have e4: "ordinal a * 24 + hour a = ordinal b * 24 + hour b"
    using e3 va(3,4) vb(3,4) by (rule radix_unique(1))
  have h: "hour a = hour b"
    using e4 va(1,2) vb(1,2) by (rule radix_unique(2))
  have d: "ordinal a = ordinal b"
    using e4 va(1,2) vb(1,2) by (rule radix_unique(1))
  show ?thesis
    using us s m h d by (simp add: datetime.equality)
qed

lemma timedelta_of_seconds:
  fixes d h m :: int
  defines "t \<equiv> (d * 24 + h) * 3600 + m * 60"
  assumes "0 \<le> t" and "t < 86400000000000"
  shows "timedelta_of d h m = Inr \<lparr>days = t div 86400, seconds = t mod 86400, microseconds = 0\<rparr>"
proof -
  have "t div 86400 * 86400 + t mod 86400 = t"
    by (rule div_mult_mod_eq)
  moreover have "0 \<le> t mod 86400" by simp
  ultimately have "t div 86400 * 86400 \<le> t" by linarith
  with assms(3) have up: "t div 86400 \<le> 999999999" by linarith
  have lo: "0 \<le> t div 86400"
    using assms(2) by (simp add: pos_imp_zdiv_nonneg_iff)
  show ?thesis
    unfolding timedelta_of_def Let_def t_def [symmetric] using up lo by simp
qed

lemma delta_us_seconds:
  "delta_us \<lparr>days = t div 86400, seconds = t mod 86400, microseconds = 0\<rparr> = t * 1000000"
proof -
  have "t div 86400 * 86400 + t mod 86400 = t"
    by (rule div_mult_mod_eq)
  then show ?thesis by (simp add: delta_us_def)
qed

lemma add_delta_seconds:
  fixes d h m :: int
  defines "t \<equiv> (d * 24 + h) * 3600 + m * 60"
  assumes "valid_datetime T" and "0 \<le> t"
      and "to_us T + t * 1000000 < (MAXORDINAL + 1) * DAY_US"
  shows "\<exists>r. add_delta T (timedelta_of d h m) = Inr r \<and> valid_datetime r
           \<and> to_us r = to_us T + t * 1000000
           \<and> second r = second T \<and> microsecond r = microsecond T"
proof -
  define td where "td = \<lparr>days = t div 86400, seconds = t mod 86400, microseconds = 0\<rparr>"
  have vt: "valid_time T" and o1: "1 \<le> ordinal T"
    using assms(2) by (simp_all add: valid_datetime_iff)
  have low: "DAY_US \<le> to_us T"
    using to_us_lower [OF vt] o1 by (simp add: DAY_US_def)
  have "t < 86400000000000"
    using low assms(4) by (simp add: DAY_US_def MAXORDINAL_def)
  with assms(3) have td: "timedelta_of d h m = Inr td"
    unfolding td_def t_def by (intro timedelta_of_seconds)
  have du: "delta_us td = t * 1000000"
    unfolding td_def by (rule delta_us_seconds)
  have "DAY_US \<le> to_us T + delta_us td"
    using low assms(3) by (simp add: du)
  moreover have "to_us T + delta_us td < (MAXORDINAL + 1) * DAY_US"
    using assms(4) by (simp add: du)
  ultimately have add: "datetime_add T td = Inr (normalize_sum T td)"
    by (rule datetime_add_in_range)
  have val: "valid_datetime (normalize_sum T td)"
    using add by (rule datetime_add_Inr(2))
  have tu: "to_us (normalize_sum T td) = to_us T + t * 1000000"
    by (simp add: normalize_sum_to_us du)
  have us0: "microsecond T div 1000000 = 0" and usm: "microsecond T mod 1000000 = microsecond T"
    using vt by (simp_all add: valid_time_def)
  have "t = ((d * 24 + h) * 60 + m) * 60"
    by (simp add: t_def algebra_simps)
  then have "t mod 60 = 0" by simp
  moreover have "t mod 86400 mod 60 = t mod 60"
    by (rule mod_mod_cancel) simp
  ultimately have t60: "t mod 86400 mod 60 = 0" by simp
  have "(second T + t mod 86400) mod 60 = (second T mod 60 + t mod 86400 mod 60) mod 60"
    by (simp only: mod_add_eq)
  also have "\<dots> = second T"
    using vt by (simp add: t60 valid_time_def)
  finally have sec: "second (normalize_sum T td) = second T"
    by (simp add: normalize_sum_def Let_def td_def us0)
  have mic: "microsecond (normalize_sum T td) = microsecond T"
    by (simp add: normalize_sum_def Let_def td_def usm)
  show ?thesis
    using td add val tu sec mic by (simp add: add_delta_def)
qed

lemma add_one_hour:
  assumes "valid_datetime T" and "to_us T + 3600000000 < (MAXORDINAL + 1) * DAY_US"
  shows "\<exists>r. add_delta T (timedelta_of 0 1 0) = Inr r \<and> valid_datetime r
           \<and> to_us r = to_us T + 3600000000
           \<and> second r = second T \<and> microsecond r = microsecond T"
  using add_delta_seconds [of T 0 1 0] assms by simp

lemma add_one_day:
  assumes "valid_datetime T" and "ordinal T < MAXORDINAL"
  shows "add_delta T (timedelta_of 1 0 0) = Inr (T\<lparr>ordinal := ordinal T + 1\<rparr>)"
  using assms by (simp add: time_eval valid_datetime_def Let_def)

section \<open>Facts about the search for the interval token\<close>

lemma enc_mhd: "set (enc ''mhd'') = {109, 104, 100}"
  by (simp add: enc_def)

lemma unit_not_decimal: "u \<in> set (enc ''mhd'') \<Longrightarrow> \<not> is_decimal u"
proof -
  have "\<not> is_decimal 109" "\<not> is_decimal 104" "\<not> is_decimal 100"
    by (simp_all add: is_decimal_def decimal_value_def decimal_zeros_def)
  then show "u \<in> set (enc ''mhd'') \<Longrightarrow> \<not> is_decimal u"
    by (auto simp add: enc_mhd)
qed

lemma length_every: "length (enc ''@every'') = 6"
  by (simp add: enc_def)

lemma startswith_every_split:
  assumes "startswith s (enc ''@every'')"
  shows "s = enc ''@every'' @ drop 6 s"
proof -
  have "take 6 s @ drop 6 s = s" by (rule append_take_drop_id)
  moreover have "take 6 s = enc ''@every''"
    using assms by (simp add: startswith_def length_every)
  ultimately show ?thesis by simp
qed

lemma match_every_at_unfold:
  assumes "startswith s (enc ''@every'')"
  shows "match_every_at s =
     (if dropWhile is_space (drop 6 s) = drop 6 s
         \<or> takeWhile is_decimal (dropWhile is_space (drop 6 s)) = [] then None
      else (case dropWhile is_decimal (dropWhile is_space (drop 6 s)) of
              [] \<Rightarrow> None
            | u # _ \<Rightarrow> if u \<in> set (enc ''mhd'')
                then Some (takeWhile is_decimal (dropWhile is_space (drop 6 s)), u)
                else None))"
  using assms by (simp only: match_every_at_def Let_def not_True_eq_False if_False)

lemma match_every_at_token:
  assumes "match_every_at s = Some (digits, u)"
  shows "every_token_at s digits u"
proof -
  define r where "r = drop 6 s"
  define r1 where "r1 = dropWhile is_space r"
  have sw: "startswith s (enc ''@every'')"
  proof (rule ccontr)
    assume "\<not> startswith s (enc ''@every'')"
    then have "match_every_at s = None" by (simp add: match_every_at_def)
    with assms show False by simp
  qed
  have s: "s = enc ''@every'' @ r"
    unfolding r_def using sw by (rule startswith_every_split)
  have m: "match_every_at s =
     (if r1 = r \<or> takeWhile is_decimal r1 = [] then None
      else (case dropWhile is_decimal r1 of
              [] \<Rightarrow> None
            | u # _ \<Rightarrow> if u \<in> set (enc ''mhd'')
                then Some (takeWhile is_decimal r1, u) else None))"
    unfolding r1_def r_def using sw by (rule match_every_at_unfold)
  have ne: "r1 \<noteq> r"
  proof
    assume "r1 = r"
    with m have "match_every_at s = None" by simp
    with assms show False by simp
  qed
  have dg: "takeWhile is_decimal r1 \<noteq> []"
  proof
    assume "takeWhile is_decimal r1 = []"
    with m have "match_every_at s = None" by simp
    with assms show False by simp
  qed
  from m ne dg have m2: "(case dropWhile is_decimal r1 of
              [] \<Rightarrow> None
            | u # _ \<Rightarrow> if u \<in> set (enc ''mhd'')
                then Some (takeWhile is_decimal r1, u) else None) = Some (digits, u)"
    using assms by simp
  obtain v rest where rest: "dropWhile is_decimal r1 = v # rest"
    using m2 by (cases "dropWhile is_decimal r1") simp_all
  from m2 rest have u: "v \<in> set (enc ''mhd'')"
    by (cases "v \<in> set (enc ''mhd'')") simp_all
  from m2 rest u have d: "digits = takeWhile is_decimal r1" and vu: "v = u"
    by simp_all
  have r: "r = takeWhile is_space r @ r1"
    by (simp add: r1_def)
  have r1: "r1 = digits @ u # rest"
    using takeWhile_dropWhile_id [of is_decimal r1] by (simp add: d rest vu)
  have ws: "takeWhile is_space r \<noteq> []"
  proof
    assume "takeWhile is_space r = []"
    with r have "r = r1" by simp
    with ne show False by simp
  qed
  have eq: "s = enc ''@every'' @ takeWhile is_space r @ digits @ u # rest"
    using s r r1 by simp
  have sp: "list_all is_space (takeWhile is_space r)"
    by (auto simp add: list_all_iff dest: set_takeWhileD)
  have dd: "list_all is_decimal digits"
    unfolding d by (auto simp add: list_all_iff dest: set_takeWhileD)
  have dn: "digits \<noteq> []" using dg d by simp
  show ?thesis
    unfolding every_token_at_def
    using eq ws sp dn dd u vu by blast
qed

lemma token_match_every_at:
  assumes "every_token_at s digits u"
  shows "match_every_at s = Some (digits, u)"
proof -
  from assms obtain ws rest where s: "s = enc ''@every'' @ ws @ digits @ u # rest"
      and ws: "ws \<noteq> []" "list_all is_space ws"
      and dg: "digits \<noteq> []" "list_all is_decimal digits"
      and u: "u \<in> set (enc ''mhd'')"
    unfolding every_token_at_def by blast
  have sw: "startswith s (enc ''@every'')"
    by (simp add: s startswith_def)
  have r: "drop 6 s = ws @ digits @ u # rest"
    using length_every by (simp add: s)
  obtain d0 ds where d0: "digits = d0 # ds"
    using dg(1) by (cases digits) auto
  have "is_decimal d0" using dg(2) by (simp add: d0)
  then have nsp: "\<not> is_space d0" using space_not_decimal by blast
  have r1: "dropWhile is_space (drop 6 s) = digits @ u # rest"
    using ws(2) nsp by (simp add: r d0 list_all_iff)
  have ne: "dropWhile is_space (drop 6 s) \<noteq> drop 6 s"
  proof
    assume "dropWhile is_space (drop 6 s) = drop 6 s"
    then have "digits @ u # rest = drop 6 s"
      by (simp only: r1)
    then have "digits @ u # rest = ws @ digits @ u # rest"
      by (simp only: r)
    then have "length (digits @ u # rest) = length (ws @ digits @ u # rest)"
      by (rule arg_cong)
    with ws(1) show False by simp
  qed
  have nu: "\<not> is_decimal u" using u by (rule unit_not_decimal)
  have tk: "takeWhile is_decimal (digits @ u # rest) = digits"
    using dg(2) nu by (simp add: list_all_iff)
  have dr: "dropWhile is_decimal (digits @ u # rest) = u # rest"
    using dg(2) nu by (simp add: list_all_iff)
  show ?thesis
    using ne dg(1) u by (simp add: match_every_at_unfold [OF sw] r1 tk dr)
qed

lemma re_search_every_Some:
  "re_search_every s = Some g \<Longrightarrow> \<exists>pre suf. s = pre @ suf \<and> match_every_at suf = Some g"
proof (induction s)
  case Nil
  then show ?case by simp
next
  case (Cons c cs)
  show ?case
  proof (cases "match_every_at (c # cs)")
    case None
    with Cons.prems have "re_search_every cs = Some g" by simp
    from Cons.IH [OF this] obtain pre suf where "cs = pre @ suf" "match_every_at suf = Some g"
      by blast
    then have "c # cs = (c # pre) @ suf \<and> match_every_at suf = Some g" by simp
    then show ?thesis by blast
  next
    case (Some h)
    with Cons.prems have "h = g" by simp
    with Some have "c # cs = [] @ (c # cs) \<and> match_every_at (c # cs) = Some g" by simp
    then show ?thesis by blast
  qed
qed

lemma no_token_no_match: "\<not> has_every_token s \<Longrightarrow> re_search_every s = None"
proof (rule ccontr)
  assume no: "\<not> has_every_token s" and "re_search_every s \<noteq> None"
  then obtain digits u where "re_search_every s = Some (digits, u)" by auto
  from re_search_every_Some [OF this] obtain pre suf
    where "s = pre @ suf" "match_every_at suf = Some (digits, u)" by blast
  then have "s = pre @ suf \<and> every_token_at suf digits u"
    using match_every_at_token by blast
  then have "has_every_token s" unfolding has_every_token_def by blast
  with no show False by simp
qed

lemma re_search_every_leftmost:
  assumes "match_every_at suf = Some g"
      and "\<forall>pre' suf'. pre @ suf = pre' @ suf' \<and> length pre' < length pre
             \<longrightarrow> match_every_at suf' = None"
  shows "re_search_every (pre @ suf) = Some g"
  using assms
proof (induction pre)
  case Nil
  then show ?case by (cases suf) (simp_all add: match_every_at_def startswith_def enc_def)
next
  case (Cons p ps)
  have "match_every_at ((p # ps) @ suf) = None"
    using Cons.prems(2) [rule_format, of "[]" "(p # ps) @ suf"] by simp
  moreover have "re_search_every (ps @ suf) = Some g"
  proof (rule Cons.IH [OF Cons.prems(1)], intro allI impI)
    fix pre' suf' assume a: "ps @ suf = pre' @ suf' \<and> length pre' < length ps"
    then have "(p # ps) @ suf = (p # pre') @ suf' \<and> length (p # pre') < length (p # ps)"
      by simp
    with Cons.prems(2) show "match_every_at suf' = None" by blast
  qed
  ultimately show ?case by simp
qed

lemma token_has_match: "has_every_token s \<Longrightarrow> re_search_every s \<noteq> None"
proof -
  assume "has_every_token s"
  then obtain pre suf digits u where s: "s = pre @ suf" and t: "every_token_at suf digits u"
    unfolding has_every_token_def by blast
  have m: "match_every_at suf = Some (digits, u)"
    using t by (rule token_match_every_at)
  have "re_search_every (pre @ suf) \<noteq> None"
  proof (induction pre)
    case Nil
    show ?case
    proof (cases suf)
      case Nil
      with m show ?thesis by (simp add: match_every_at_def startswith_def enc_def)
    next
      case (Cons c cs)
      with m show ?thesis by simp
    qed
  next
    case (Cons p ps)
    then show ?case by (cases "match_every_at (p # ps @ suf)") simp_all
  qed
  then show ?thesis by (simp add: s)
qed

section \<open>Facts about the next-run estimate\<close>

lemma dom_SHORTCUTS:
  "dom SHORTCUTS = set [enc ''@yearly'', enc ''@annually'', enc ''@monthly'',
         enc ''@weekly'', enc ''@daily'', enc ''@midnight'', enc ''@hourly'']"
  by (simp add: SHORTCUTS_def dom_map_of_conv_image_fst)

lemma not_key_no_shortcut:
  assumes "s \<notin> set [enc ''@yearly'', enc ''@annually'', enc ''@monthly'',
         enc ''@weekly'', enc ''@daily'', enc ''@midnight'', enc ''@hourly'']"
  shows "SHORTCUTS s = None"
  using assms unfolding dom_SHORTCUTS [symmetric] by (simp add: domIff)

lemma calculate_next_run_no_token:
  assumes "\<not> has_every_token s"
  shows "calculate_next_run s T = next_run_cron s T"
proof -
  have "re_search_every s = None"
    using assms by (rule no_token_no_match)
  then show ?thesis by (simp add: calculate_next_run_def)
qed

lemma next_run_cron_fallback:
  assumes "SHORTCUTS s = None"
      and "length (split_ws s) \<noteq> 5 \<or>
           (\<exists>mi hr dy mo wd. split_ws s = [mi, hr, dy, mo, wd]
              \<and> \<not> startswith mi (enc ''*/'')
              \<and> \<not> (startswith hr (enc ''*/'') \<and> isdigit mi)
              \<and> \<not> (isdigit mi \<and> isdigit hr))"
  shows "next_run_cron s T = add_delta T (timedelta_of 0 1 0)"
  using assms(2)
proof
  assume "length (split_ws s) \<noteq> 5"
  then show ?thesis by (simp add: next_run_cron_def assms(1) Let_def)
next
  assume "\<exists>mi hr dy mo wd. split_ws s = [mi, hr, dy, mo, wd]
              \<and> \<not> startswith mi (enc ''*/'')
              \<and> \<not> (startswith hr (enc ''*/'') \<and> isdigit mi)
              \<and> \<not> (isdigit mi \<and> isdigit hr)"
  then obtain mi hr dy mo wd where sp: "split_ws s = [mi, hr, dy, mo, wd]"
      and a: "\<not> startswith mi (enc ''*/'')"
      and b: "\<not> (startswith hr (enc ''*/'') \<and> isdigit mi)"
      and c: "\<not> (isdigit mi \<and> isdigit hr)"
    by blast
  show ?thesis
    using a b c by (auto simp add: next_run_cron_def assms(1) Let_def sp)
qed

lemma random_no_token: "\<not> has_every_token (enc ''@random'')"
proof
  assume "has_every_token (enc ''@random'')"
  then have "re_search_every (enc ''@random'') \<noteq> None"
    by (rule token_has_match)
  then show False
    by (simp add: str_eval match_every_at_def)
qed

lemma one_hour_in_range:
  assumes "valid_datetime T" and "ordinal T < MAXORDINAL"
  shows "to_us T + 3600000000 < (MAXORDINAL + 1) * DAY_US"
proof -
  have "valid_time T" using assms(1) by (simp add: valid_datetime_iff)
  then have "to_us T < ordinal T * DAY_US + DAY_US" by (rule to_us_upper)
  with assms(2) show ?thesis by (simp add: DAY_US_def MAXORDINAL_def)
qed

lemma next_midnight:
  assumes "valid_datetime T" and "ordinal T < MAXORDINAL"
  shows "calculate_next_run (enc ''@daily'') T
     = Inr \<lparr>ordinal = ordinal T + 1, hour = 0, minute = 0, second = 0, microsecond = 0\<rparr>"
proof -
  define c where "c = T\<lparr>hour := 0, minute := 0, second := 0, microsecond := 0\<rparr>"
  have le: "datetime_le c T"
    using assms(1) by (auto simp add: c_def datetime_le_def valid_datetime_def)
  have vc: "valid_datetime c" and oc: "ordinal c < MAXORDINAL"
    using assms by (simp_all add: c_def valid_datetime_def)
  have "calculate_next_run (enc ''@daily'') T
      = (if datetime_le c T then add_delta c (timedelta_of 1 0 0) else Inr c)"
    unfolding c_def
    by (simp add: str_eval cron_eval replace_hour_minute_def C_INT_MAX_def Let_def)
  also have "\<dots> = Inr (c\<lparr>ordinal := ordinal c + 1\<rparr>)"
    using le add_one_day [OF vc oc] by simp
  finally show ?thesis by (simp add: c_def)
qed

lemma first_field_head:
  assumes "startswith s p" and "p \<noteq> []" and "\<not> is_space (hd p)" and "split_ws s = f # fs"
  shows "hd f = hd p"
proof -
  obtain a p' where p: "p = a # p'" using assms(2) by (cases p) auto
  from assms(1) have "take (length p) s = p" by (simp add: startswith_def)
  then obtain rest where s: "s = a # rest"
    unfolding p by (cases s) simp_all
  have "\<not> is_space a" using assms(3) by (simp add: p)
  then have "dropWhile is_space s = a # rest" by (simp add: s)
  from split_ws_Cons [OF this] assms(4) have "f = a # takeWhile (\<lambda>x. \<not> is_space x) rest"
    by simp
  then show ?thesis by (simp add: p)
qed

lemma startswith_head:
  assumes "startswith f p" and "p \<noteq> []"
  shows "f \<noteq> [] \<and> hd f = hd p"
proof -
  obtain a p' where p: "p = a # p'" using assms(2) by (cases p) auto
  from assms(1) have "take (length p) f = p" by (simp add: startswith_def)
  then show ?thesis unfolding p by (cases f) simp_all
qed

lemma heads_not_decimal: "\<not> is_decimal 64" "\<not> is_decimal 42"
  by (simp_all add: is_decimal_def decimal_value_def decimal_zeros_def)

lemma decimal_isdigit: "ds \<noteq> [] \<Longrightarrow> list_all is_decimal ds \<Longrightarrow> isdigit ds"
  by (simp add: isdigit_def list_all_iff decimal_is_digit)

lemma decimal_no_step:
  assumes "ds \<noteq> []" and "list_all is_decimal ds"
  shows "\<not> startswith ds (enc ''*/'')"
proof
  assume "startswith ds (enc ''*/'')"
  then have "hd ds = hd (enc ''*/'')"
    using startswith_head by (simp add: enc_def)
  then have "hd ds = 42" by (simp add: enc_def)
  moreover have "is_decimal (hd ds)" using assms by (simp add: list_all_iff)
  ultimately show False using heads_not_decimal(2) by simp
qed

lemma add_one_day_overflow:
  assumes "valid_datetime T" and "ordinal T = MAXORDINAL"
  shows "add_delta T (timedelta_of 1 0 0) = Inl OverflowError"
  using assms by (simp add: time_eval valid_datetime_def Let_def)

lemma digits_field_not_every:
  assumes "split_ws s = f # fs" and "f \<noteq> []" and "list_all is_decimal f"
  shows "\<not> startswith s (enc ''@every'')"
proof
  assume sw: "startswith s (enc ''@every'')"
  have "hd f = hd (enc ''@every'')"
    using sw _ _ assms(1) by (rule first_field_head) (simp_all add: enc_def is_space_def space_table_def)
  then have "hd f = 64" by (simp add: enc_def)
  moreover have "is_decimal (hd f)" using assms(2,3) by (simp add: list_all_iff)
  ultimately show False using heads_not_decimal(1) by simp
qed

section \<open>Claims settled by evaluation\<close>

text \<open>
  Claim C1 says that \<^verbatim>\<open>parse_schedule\<close> and \<^verbatim>\<open>calculate_next_run\<close> return a value for
  every input string and never raise, in particular for a step suffix that is no decimal
  number and for minute and hour fields out of range. The code raises on exactly those
  inputs: \<^verbatim>\<open>int\<close> is applied to the step suffix unguarded (lines 96 and 153), and
  \<^verbatim>\<open>replace\<close> receives the hour 99 (line 167). Both operations end in \<^verbatim>\<open>ValueError\<close> on
  the strings the claim names, whatever the reference time.
\<close>

theorem raises_on_malformed_fields:
  "parse_schedule (enc ''*/x * * * *'') = Inl ValueError
   \<and> parse_schedule (enc ''*/ * * * *'') = Inl ValueError
   \<and> calculate_next_run (enc ''*/x * * * *'') T = Inl ValueError
   \<and> calculate_next_run (enc ''99 99 * * *'') T = Inl ValueError"
  by (simp add: str_eval cron_eval time_eval Let_def)


text \<open>
  Claim C10: with a zero count the interval branch returns the reference time itself, for
  each of the three units; the result is not strictly after the reference time.
\<close>

theorem every_zero_is_identity:
  "valid_datetime T \<Longrightarrow>
     calculate_next_run (enc ''@every 0m'') T = Inr T
     \<and> calculate_next_run (enc ''@every 0h'') T = Inr T
     \<and> calculate_next_run (enc ''@every 0d'') T = Inr T"
  by (simp add: str_eval cron_eval time_eval Let_def valid_datetime_def)

theorem every_zero_is_identity_witness:
  "valid_datetime \<lparr>ordinal = 738886, hour = 8, minute = 30, second = 15, microsecond = 250000\<rparr>
   \<and> calculate_next_run (enc ''@every 0m'')
        \<lparr>ordinal = 738886, hour = 8, minute = 30, second = 15, microsecond = 250000\<rparr>
      = Inr \<lparr>ordinal = 738886, hour = 8, minute = 30, second = 15, microsecond = 250000\<rparr>"
proof -
  have v: "valid_datetime
      \<lparr>ordinal = 738886, hour = 8, minute = 30, second = 15, microsecond = 250000\<rparr>"
    by (simp add: valid_datetime_def MAXORDINAL_def)
  from v every_zero_is_identity [OF v] show ?thesis by simp
qed

section \<open>Claims about the description of standard cron strings\<close>

text \<open>
  Claim C9: a five-field string whose minute field is a literal other than \<^verbatim>\<open>*\<close> and
  \<^verbatim>\<open>0\<close>, whose hour field is a step pattern and whose last three fields are \<^verbatim>\<open>*\<close> is
  described as \<^verbatim>\<open>Daily at\<close> with the hour field printed as it stands (it has at least
  two characters, so \<^verbatim>\<open>zfill\<close> leaves it alone) and the minute field padded to two
  places. A literal is read as a field that is neither a step pattern nor the start of
  one of the \<^verbatim>\<open>@\<close> keywords, which the code tests on the whole string first.
\<close>

theorem step_hour_with_minute_is_daily:
  assumes "split_ws s = [mi, hr, enc ''*'', enc ''*'', enc ''*'']"
      and "startswith hr (enc ''*/'')"
      and "mi \<noteq> enc ''*''" and "mi \<noteq> enc ''0''"
      and "\<not> startswith mi (enc ''*/'')"
      and "\<not> startswith mi (enc ''@every'')"
      and "\<not> startswith mi (enc ''@random'')"
  shows "parse_schedule s = Inr (enc ''Daily at '' @ hr @ enc '':'' @ zfill mi 2)"
proof -
  have len: "2 \<le> length hr"
    using startswith_length [OF assms(2)] by (simp add: enc_def)
  then have zh: "zfill hr 2 = hr"
    by (simp add: zfill_def)
  have hs: "hr \<noteq> enc ''*''"
    using len by (auto simp add: enc_def)
  have sp: "split_ws (strip s) = [mi, hr, enc ''*'', enc ''*'', enc ''*'']"
    using assms(1) by (simp add: split_ws_strip)
  have star: "\<not> startswith (enc ''*'') (enc ''*/'')"
    by (simp add: startswith_def enc_def)
  have "parse_schedule s = describe_standard_cron (strip s)"
    using assms(1,6,7) by (rule parse_schedule_five_fields)
  also have "\<dots> = Inr (enc ''Daily at '' @ hr @ enc '':'' @ zfill mi 2)"
    using assms(3,4,5) hs star by (simp add: describe_standard_cron_def sp zh)
  finally show ?thesis .
qed

theorem step_hour_with_minute_is_daily_witness:
  "split_ws (enc ''30 */2 * * *'') = [enc ''30'', enc ''*/2'', enc ''*'', enc ''*'', enc ''*'']
   \<and> startswith (enc ''*/2'') (enc ''*/'')
   \<and> enc ''30'' \<noteq> enc ''*'' \<and> enc ''30'' \<noteq> enc ''0''
   \<and> \<not> startswith (enc ''30'') (enc ''*/'')
   \<and> \<not> startswith (enc ''30'') (enc ''@every'')
   \<and> \<not> startswith (enc ''30'') (enc ''@random'')
   \<and> parse_schedule (enc ''30 */2 * * *'') = Inr (enc ''Daily at */2:30'')"
proof -
  have a: "split_ws (enc ''30 */2 * * *'')
      = [enc ''30'', enc ''*/2'', enc ''*'', enc ''*'', enc ''*'']"
    by (simp add: str_eval)
  have b: "startswith (enc ''*/2'') (enc ''*/'')" by (simp add: str_eval)
  have c: "enc ''30'' \<noteq> enc ''*''" by (simp add: str_eval)
  have d: "enc ''30'' \<noteq> enc ''0''" by (simp add: str_eval)
  have e: "\<not> startswith (enc ''30'') (enc ''*/'')" by (simp add: str_eval)
  have f: "\<not> startswith (enc ''30'') (enc ''@every'')" by (simp add: str_eval)
  have g: "\<not> startswith (enc ''30'') (enc ''@random'')" by (simp add: str_eval)
  have "enc ''Daily at '' @ enc ''*/2'' @ enc '':'' @ zfill (enc ''30'') 2 = enc ''Daily at */2:30''"
    by (simp add: str_eval)
  with step_hour_with_minute_is_daily [OF a b c d e f g] a b c d e f g show ?thesis
    by simp
qed

section \<open>Claims about the next-run estimate\<close>

text \<open>
  Claim C7, amended. The claim says that a string without an interval token that is no
  shortcut key and either has not five fields or has five fields of none of the three
  shapes the code handles gets exactly the reference time plus one hour. That holds
  whenever the reference time plus one hour is a timestamp at all, which is the added
  condition; seconds and microseconds are kept. The three shapes are the tests of the
  code: a minute field starting with \<^verbatim>\<open>*/\<close>, an hour field starting with \<^verbatim>\<open>*/\<close> beside a
  minute field of digits, and minute and hour fields of digits.
\<close>

theorem unhandled_shape_falls_back:
  assumes "valid_datetime T"
      and "to_us T + 3600000000 < (MAXORDINAL + 1) * DAY_US"
      and "\<not> has_every_token s"
      and "s \<notin> set [enc ''@yearly'', enc ''@annually'', enc ''@monthly'',
             enc ''@weekly'', enc ''@daily'', enc ''@midnight'', enc ''@hourly'']"
      and "length (split_ws s) \<noteq> 5 \<or>
           (\<exists>mi hr dy mo wd. split_ws s = [mi, hr, dy, mo, wd]
              \<and> \<not> startswith mi (enc ''*/'')
              \<and> \<not> (startswith hr (enc ''*/'') \<and> isdigit mi)
              \<and> \<not> (isdigit mi \<and> isdigit hr))"
  shows "\<exists>r. calculate_next_run s T = Inr r \<and> valid_datetime r
           \<and> to_us r = to_us T + 3600000000
           \<and> second r = second T \<and> microsecond r = microsecond T"
proof -
  have "calculate_next_run s T = next_run_cron s T"
    using assms(3) by (rule calculate_next_run_no_token)
  also have "\<dots> = add_delta T (timedelta_of 0 1 0)"
    using not_key_no_shortcut [OF assms(4)] assms(5) by (rule next_run_cron_fallback)
  finally show ?thesis
    using add_one_hour [OF assms(1,2)] by simp
qed

theorem unhandled_shape_falls_back_witness:
  "valid_datetime \<lparr>ordinal = 738886, hour = 8, minute = 30, second = 15, microsecond = 250000\<rparr>
   \<and> \<not> has_every_token (enc ''@random'')
   \<and> length (split_ws (enc ''@random'')) \<noteq> 5
   \<and> calculate_next_run (enc ''@random'')
        \<lparr>ordinal = 738886, hour = 8, minute = 30, second = 15, microsecond = 250000\<rparr>
      = Inr \<lparr>ordinal = 738886, hour = 9, minute = 30, second = 15, microsecond = 250000\<rparr>"
proof -
  define T where "T = \<lparr>ordinal = 738886, hour = 8, minute = 30, second = 15,
      microsecond = 250000\<rparr>"
  have v: "valid_datetime T"
    by (simp add: T_def valid_datetime_def MAXORDINAL_def)
  have rng: "to_us T + 3600000000 < (MAXORDINAL + 1) * DAY_US"
    by (simp add: T_def to_us_def MAXORDINAL_def DAY_US_def)
  have k: "enc ''@random'' \<notin> set [enc ''@yearly'', enc ''@annually'', enc ''@monthly'',
             enc ''@weekly'', enc ''@daily'', enc ''@midnight'', enc ''@hourly'']"
    by (simp add: enc_def)
  have l: "length (split_ws (enc ''@random'')) \<noteq> 5"
    by (simp add: str_eval)
  then have sh: "length (split_ws (enc ''@random'')) \<noteq> 5 \<or>
           (\<exists>mi hr dy mo wd. split_ws (enc ''@random'') = [mi, hr, dy, mo, wd]
              \<and> \<not> startswith mi (enc ''*/'')
              \<and> \<not> (startswith hr (enc ''*/'') \<and> isdigit mi)
              \<and> \<not> (isdigit mi \<and> isdigit hr))"
    by simp
  have e: "calculate_next_run (enc ''@random'') T
      = Inr \<lparr>ordinal = 738886, hour = 9, minute = 30, second = 15, microsecond = 250000\<rparr>"
    by (simp add: T_def str_eval cron_eval time_eval Let_def)
  from unhandled_shape_falls_back [OF v rng random_no_token k sh] v l e random_no_token
  show ?thesis unfolding T_def by simp
qed

text \<open>
  Claim C7 as stated fails in the last hour of the year 9999: the reference time plus one
  hour is beyond the largest timestamp, and the addition raises \<^verbatim>\<open>OverflowError\<close>.
\<close>

theorem fallback_overflows_in_last_hour:
  "valid_datetime \<lparr>ordinal = 3652059, hour = 23, minute = 30, second = 0, microsecond = 0\<rparr>
   \<and> \<not> has_every_token (enc ''@random'')
   \<and> enc ''@random'' \<notin> set [enc ''@yearly'', enc ''@annually'', enc ''@monthly'',
             enc ''@weekly'', enc ''@daily'', enc ''@midnight'', enc ''@hourly'']
   \<and> length (split_ws (enc ''@random'')) \<noteq> 5
   \<and> calculate_next_run (enc ''@random'')
        \<lparr>ordinal = 3652059, hour = 23, minute = 30, second = 0, microsecond = 0\<rparr>
      = Inl OverflowError"
proof -
  have "valid_datetime \<lparr>ordinal = 3652059, hour = 23, minute = 30, second = 0, microsecond = 0\<rparr>"
    by (simp add: valid_datetime_def MAXORDINAL_def)
  moreover have "enc ''@random'' \<notin> set [enc ''@yearly'', enc ''@annually'', enc ''@monthly'',
             enc ''@weekly'', enc ''@daily'', enc ''@midnight'', enc ''@hourly'']"
    by (simp add: enc_def)
  moreover have "length (split_ws (enc ''@random'')) \<noteq> 5"
    by (simp add: str_eval)
  moreover have "calculate_next_run (enc ''@random'')
        \<lparr>ordinal = 3652059, hour = 23, minute = 30, second = 0, microsecond = 0\<rparr>
      = Inl OverflowError"
    by (simp add: str_eval cron_eval time_eval Let_def)
  ultimately show ?thesis using random_no_token by simp
qed

text \<open>
  Claim C8: \<^verbatim>\<open>calculate_next_run\<close> does not trim its argument while \<^verbatim>\<open>parse_schedule\<close>
  does. With a leading blank the shortcut \<^verbatim>\<open>@daily\<close> is no longer found and has one
  field, so the estimate is the generic reference time plus one hour, whereas the trimmed
  string gives the next midnight; the two differ unless the reference time is in the hour
  from 23:00, and the descriptions of the two strings are the same. The reference time is
  any timestamp before the last representable day.
\<close>

theorem next_run_does_not_trim:
  assumes "valid_datetime T" and "ordinal T < MAXORDINAL"
  shows "strip (enc '' @daily'') = enc ''@daily''
    \<and> parse_schedule (enc '' @daily'') = parse_schedule (enc ''@daily'')
    \<and> calculate_next_run (enc '' @daily'') T = add_delta T (timedelta_of 0 1 0)
    \<and> (\<exists>r. calculate_next_run (enc '' @daily'') T = Inr r
           \<and> to_us r = to_us T + 3600000000)
    \<and> calculate_next_run (strip (enc '' @daily'')) T
        = Inr \<lparr>ordinal = ordinal T + 1, hour = 0, minute = 0, second = 0, microsecond = 0\<rparr>
    \<and> (hour T \<noteq> 23 \<longrightarrow>
          calculate_next_run (enc '' @daily'') T
            \<noteq> calculate_next_run (strip (enc '' @daily'')) T)"
proof -
  have st: "strip (enc '' @daily'') = enc ''@daily''"
    by (simp add: str_eval)
  have ps: "parse_schedule (enc '' @daily'') = parse_schedule (enc ''@daily'')"
    by (simp add: str_eval cron_eval Let_def)
  have fb: "calculate_next_run (enc '' @daily'') T = add_delta T (timedelta_of 0 1 0)"
    by (simp add: str_eval cron_eval Let_def)
  obtain r where r: "add_delta T (timedelta_of 0 1 0) = Inr r"
      and tr: "to_us r = to_us T + 3600000000"
    using add_one_hour [OF assms(1) one_hour_in_range [OF assms]] by blast
  have mid: "calculate_next_run (enc ''@daily'') T
     = Inr \<lparr>ordinal = ordinal T + 1, hour = 0, minute = 0, second = 0, microsecond = 0\<rparr>"
    using assms by (rule next_midnight)
  have ne: "hour T \<noteq> 23 \<longrightarrow>
      r \<noteq> \<lparr>ordinal = ordinal T + 1, hour = 0, minute = 0, second = 0, microsecond = 0\<rparr>"
  proof (intro impI notI)
    assume h: "hour T \<noteq> 23"
      and "r = \<lparr>ordinal = ordinal T + 1, hour = 0, minute = 0, second = 0, microsecond = 0\<rparr>"
    then have "to_us r = (ordinal T + 1) * DAY_US"
      by (simp add: to_us_def DAY_US_def)
    with tr have e: "to_us T + 3600000000 = (ordinal T + 1) * DAY_US" by simp
    have "hour T \<le> 22" "0 \<le> minute T" "minute T < 60" "0 \<le> second T" "second T < 60"
        "0 \<le> microsecond T" "microsecond T < 1000000"
      using assms(1) h by (simp_all add: valid_datetime_def)
    with e show False
      by (simp add: to_us_def DAY_US_def)
  qed
  show ?thesis
    using st ps fb r tr mid ne by simp
qed

theorem next_run_does_not_trim_witness:
  "valid_datetime \<lparr>ordinal = 738886, hour = 8, minute = 30, second = 15, microsecond = 250000\<rparr>
   \<and> calculate_next_run (enc '' @daily'')
        \<lparr>ordinal = 738886, hour = 8, minute = 30, second = 15, microsecond = 250000\<rparr>
      = Inr \<lparr>ordinal = 738886, hour = 9, minute = 30, second = 15, microsecond = 250000\<rparr>
   \<and> calculate_next_run (strip (enc '' @daily''))
        \<lparr>ordinal = 738886, hour = 8, minute = 30, second = 15, microsecond = 250000\<rparr>
      = Inr \<lparr>ordinal = 738887, hour = 0, minute = 0, second = 0, microsecond = 0\<rparr>
   \<and> parse_schedule (enc '' @daily'') = Inr (enc ''Daily at 00:00'')
   \<and> parse_schedule (strip (enc '' @daily'')) = Inr (enc ''Daily at 00:00'')"
proof -
  define T where "T = \<lparr>ordinal = 738886, hour = 8, minute = 30, second = 15,
      microsecond = 250000\<rparr>"
  have v: "valid_datetime T"
    by (simp add: T_def valid_datetime_def MAXORDINAL_def)
  have o: "ordinal T < MAXORDINAL"
    by (simp add: T_def MAXORDINAL_def)
  have e: "calculate_next_run (enc '' @daily'') T
      = Inr \<lparr>ordinal = 738886, hour = 9, minute = 30, second = 15, microsecond = 250000\<rparr>"
    by (simp add: T_def str_eval cron_eval time_eval Let_def)
  have p: "parse_schedule (enc ''@daily'') = Inr (enc ''Daily at 00:00'')"
    by (simp add: str_eval cron_eval Let_def)
  have st: "strip (enc '' @daily'') = enc ''@daily''"
    by (simp add: str_eval)
  have o1: "ordinal T + 1 = 738887"
    by (simp add: T_def)
  from next_run_does_not_trim [OF v o]
  have a: "calculate_next_run (strip (enc '' @daily'')) T
      = Inr \<lparr>ordinal = ordinal T + 1, hour = 0, minute = 0, second = 0, microsecond = 0\<rparr>"
    and b: "parse_schedule (enc '' @daily'') = parse_schedule (enc ''@daily'')"
    by blast+
  show ?thesis
    using v e a b p unfolding o1 st unfolding T_def by simp
qed

text \<open>
  Claim C2, amended. For a five-field string whose minute and hour fields are decimal
  digits (at most 4300 of them, the most that \<^verbatim>\<open>int\<close> reads) denoting a minute up to 59
  and an hour up to 23, the estimate is the reference day at that hour and minute, with
  seconds and microseconds zero, when that is strictly after the reference time; otherwise
  it is the same time on the next day, and on the last representable day, where there is
  no next day, the rollover raises \<^verbatim>\<open>OverflowError\<close>. Such a string neither starts with
  \<^verbatim>\<open>@every\<close> nor is a shortcut key, and neither step rule applies to it.
\<close>

theorem daily_time_next_run:
  assumes "valid_datetime T"
      and "split_ws s = [mi, hr, dy, mo, wd]"
      and "list_all is_decimal mi" and "length mi \<le> 4300" and "decimal_number mi \<le> 59"
      and "list_all is_decimal hr" and "length hr \<le> 4300" and "decimal_number hr \<le> 23"
  shows "calculate_next_run s T =
     (let candidate = T\<lparr>hour := decimal_number hr, minute := decimal_number mi,
                           second := 0, microsecond := 0\<rparr>
      in if \<not> datetime_le candidate T then Inr candidate
         else if ordinal T < MAXORDINAL then Inr (candidate\<lparr>ordinal := ordinal T + 1\<rparr>)
         else Inl OverflowError)"
proof -
  define c where "c = T\<lparr>hour := decimal_number hr, minute := decimal_number mi,
                           second := 0, microsecond := 0\<rparr>"
  have mi: "mi \<noteq> []" and hr: "hr \<noteq> []"
    using split_ws_fields [of _ s] assms(2) by simp_all
  have ne: "\<not> startswith s (enc ''@every'')"
    using assms(2) mi assms(3) by (rule digits_field_not_every)
  have sc: "SHORTCUTS s = None"
    using assms(2) by (intro not_shortcut_if_five) simp
  have st: "\<not> startswith mi (enc ''*/'')" "\<not> startswith hr (enc ''*/'')"
    using mi hr assms(3,6) by (simp_all add: decimal_no_step)
  have dg: "isdigit mi" "isdigit hr"
    using mi hr assms(3,6) by (simp_all add: decimal_isdigit)
  have pm: "py_int mi = Inr (decimal_number mi)"
    using assms(4) by (simp add: py_int_decimal [OF mi assms(3)] INT_MAX_STR_DIGITS_def)
  have ph: "py_int hr = Inr (decimal_number hr)"
    using assms(7) by (simp add: py_int_decimal [OF hr assms(6)] INT_MAX_STR_DIGITS_def)
  have rp: "replace_hour_minute T (decimal_number hr) (decimal_number mi) = Inr c"
    using assms(5,8) decimal_number_nonneg [of hr] decimal_number_nonneg [of mi]
    by (simp add: replace_hour_minute_def C_INT_MAX_def c_def)
  have vc: "valid_datetime c"
    using assms(1,5,8) decimal_number_nonneg [of hr] decimal_number_nonneg [of mi]
    by (simp add: valid_datetime_def c_def)
  have oc: "ordinal c = ordinal T" by (simp add: c_def)
  have "calculate_next_run s T = next_run_cron s T"
    using ne by (simp add: calculate_next_run_def)
  also have "\<dots> = (if datetime_le c T then add_delta c (timedelta_of 1 0 0) else Inr c)"
    using st dg by (simp add: next_run_cron_def sc assms(2) Let_def ph pm rp)
  also have "\<dots> = (if \<not> datetime_le c T then Inr c
         else if ordinal T < MAXORDINAL then Inr (c\<lparr>ordinal := ordinal T + 1\<rparr>)
         else Inl OverflowError)"
  proof (cases "ordinal T < MAXORDINAL")
    case True
    then show ?thesis using add_one_day [OF vc] oc by simp
  next
    case False
    then have "ordinal c = MAXORDINAL"
      using assms(1) oc by (simp add: valid_datetime_def)
    then show ?thesis using add_one_day_overflow [OF vc] False by simp
  qed
  finally show ?thesis by (simp add: c_def Let_def)
qed

theorem daily_time_next_run_witness:
  "valid_datetime \<lparr>ordinal = 738886, hour = 10, minute = 0, second = 0, microsecond = 0\<rparr>
   \<and> split_ws (enc ''0 9 * * *'') = [enc ''0'', enc ''9'', enc ''*'', enc ''*'', enc ''*'']
   \<and> list_all is_decimal (enc ''0'') \<and> decimal_number (enc ''0'') = 0
   \<and> list_all is_decimal (enc ''9'') \<and> decimal_number (enc ''9'') = 9
   \<and> calculate_next_run (enc ''0 9 * * *'')
         \<lparr>ordinal = 738886, hour = 10, minute = 0, second = 0, microsecond = 0\<rparr>
       = Inr \<lparr>ordinal = 738887, hour = 9, minute = 0, second = 0, microsecond = 0\<rparr>
   \<and> calculate_next_run (enc ''0 9 * * *'')
         \<lparr>ordinal = 738886, hour = 8, minute = 0, second = 0, microsecond = 0\<rparr>
       = Inr \<lparr>ordinal = 738886, hour = 9, minute = 0, second = 0, microsecond = 0\<rparr>"
proof -
  define T where "T = \<lparr>ordinal = 738886, hour = 10, minute = 0, second = 0, microsecond = 0\<rparr>"
  define U where "U = \<lparr>ordinal = 738886, hour = 8, minute = 0, second = 0, microsecond = 0\<rparr>"
  have v: "valid_datetime T" and w: "valid_datetime U"
    by (simp_all add: T_def U_def valid_datetime_def MAXORDINAL_def)
  have sp: "split_ws (enc ''0 9 * * *'') = [enc ''0'', enc ''9'', enc ''*'', enc ''*'', enc ''*'']"
    by (simp add: str_eval)
  have m: "list_all is_decimal (enc ''0'')" "length (enc ''0'') \<le> 4300"
      "decimal_number (enc ''0'') \<le> 59"
    by (simp_all add: str_eval decimal_number_def digit_of_def)
  have h: "list_all is_decimal (enc ''9'')" "length (enc ''9'') \<le> 4300"
      "decimal_number (enc ''9'') \<le> 23"
    by (simp_all add: str_eval decimal_number_def digit_of_def)
  have n: "decimal_number (enc ''0'') = 0" "decimal_number (enc ''9'') = 9"
    by (simp_all add: str_eval decimal_number_def digit_of_def)
  have a: "calculate_next_run (enc ''0 9 * * *'') T
       = Inr \<lparr>ordinal = 738887, hour = 9, minute = 0, second = 0, microsecond = 0\<rparr>"
    using daily_time_next_run [OF v sp m h]
    by (simp add: n T_def Let_def datetime_le_def MAXORDINAL_def)
  have b: "calculate_next_run (enc ''0 9 * * *'') U
       = Inr \<lparr>ordinal = 738886, hour = 9, minute = 0, second = 0, microsecond = 0\<rparr>"
    using daily_time_next_run [OF w sp m h]
    by (simp add: n U_def Let_def datetime_le_def MAXORDINAL_def)
  show ?thesis
    using v sp m(1) h(1) n a b unfolding T_def U_def by simp
qed

text \<open>
  Claim C2 as stated fails on the last day of the year 9999: the candidate 09:00 is
  before the reference time 10:00, and the rollover to the next day raises.
\<close>

theorem rollover_overflows_on_last_day:
  "valid_datetime \<lparr>ordinal = 3652059, hour = 10, minute = 0, second = 0, microsecond = 0\<rparr>
   \<and> split_ws (enc ''0 9 * * *'') = [enc ''0'', enc ''9'', enc ''*'', enc ''*'', enc ''*'']
   \<and> calculate_next_run (enc ''0 9 * * *'')
         \<lparr>ordinal = 3652059, hour = 10, minute = 0, second = 0, microsecond = 0\<rparr>
       = Inl OverflowError"
  by (simp add: str_eval cron_eval time_eval Let_def valid_datetime_def)

end
